theory Spec2Isabelle
  imports Main
begin

section \<open>C library primitives used by the command runners\<close>

text \<open>
  The child's output, as the \<^verbatim>\<open>FILE*\<close> returned by \<^verbatim>\<open>popen(cmd, "r")\<close> delivers it, is
  a finite sequence of bytes. A \<^typ>\<open>char\<close> is one byte.
\<close>

definition NUL :: char where
  "NUL = CHR 0x00"

definition newline :: char where
  "newline = CHR 0x0A"

text \<open>
  \<^verbatim>\<open>fgets(buf, n, stream)\<close> stores at most \<open>n - 1\<close> bytes, stops after a new-line
  character (which it keeps) or at end-of-file, and appends a terminating zero byte.
  \<open>read_line k s\<close> is the pair of the bytes stored and the bytes left in the stream
  when at most \<open>k\<close> bytes may be stored.
\<close>

fun read_line :: "nat \<Rightarrow> string \<Rightarrow> string \<times> string" where
  "read_line 0 s = ([], s)"
| "read_line (Suc k) [] = ([], [])"
| "read_line (Suc k) (c # s) =
     (if c = newline then ([c], s)
      else (case read_line k s of (l, r) \<Rightarrow> (c # l, r)))"

text \<open>
  \<^verbatim>\<open>fgets\<close> returns a null pointer when end-of-file is met before any byte was read
  (\<open>None\<close>); otherwise the buffer holds the bytes read (and the stream is advanced).
\<close>

definition fgets :: "nat \<Rightarrow> string \<Rightarrow> (string \<times> string) option" where
  "fgets n s = (if s = [] then None else Some (read_line (n - 1) s))"

text \<open>
  \<^verbatim>\<open>buffer.data()\<close> is handed to \<^verbatim>\<open>operator<<(const char*)\<close> and to
  \<^verbatim>\<open>std::string::operator+=(const char*)\<close>: both take the bytes before the first zero
  byte. The buffer holds the bytes read followed by the terminator.
\<close>

definition c_str :: "string \<Rightarrow> string" where
  "c_str buf = takeWhile (\<lambda>c. c \<noteq> NUL) buf"

text \<open>\<^verbatim>\<open>std::array<char, 128> buffer\<close>\<close>

definition buffer_size :: nat where
  "buffer_size = 128"

lemma read_line_length:
  "read_line k s = (l, r) \<Longrightarrow> length l + length r = length s"
proof (induction k s arbitrary: l r rule: read_line.induct)
  case (3 k c s)
  then show ?case by (auto split: if_splits prod.splits)
qed auto

lemma read_line_progress:
  "s \<noteq> [] \<Longrightarrow> read_line (Suc k) s = (l, r) \<Longrightarrow> length r < length s"
  by (cases s) (auto split: if_splits prod.splits dest: read_line_length)

lemma fgets_progress:
  assumes "fgets buffer_size pipe = Some (buffer, pipe')"
  shows "length pipe' < length pipe"
proof -
  have k: "buffer_size - 1 = Suc 126"
    by (simp add: buffer_size_def)
  from assms have "pipe \<noteq> []" and "read_line (buffer_size - 1) pipe = (buffer, pipe')"
    by (auto simp: fgets_def split: if_splits)
  then show ?thesis
    unfolding k by (rule read_line_progress)
qed

text \<open>The buffers that the successive \<^verbatim>\<open>fgets\<close> calls of a read loop deliver.\<close>

function chunks :: "string \<Rightarrow> string list" where
  "chunks pipe =
     (case fgets buffer_size pipe of
        None \<Rightarrow> []
      | Some (buffer, pipe') \<Rightarrow> buffer # chunks pipe')"
  by pat_completeness auto

termination chunks
  by (relation "measure length") (auto dest: fgets_progress)

declare chunks.simps [simp del]

section \<open>The operating system\<close>

text \<open>
  \<^verbatim>\<open>popen(cmd.c_str(), "r")\<close>: the host maps a command line to the byte stream that
  the child writes and the pipe delivers, or to a null handle (\<open>None\<close>) when the
  process cannot be created. The output of a child is a function of its command line:
  the children do not influence one another. Neither runner looks at the exit status
  (the result of \<^verbatim>\<open>pclose\<close> is dropped), so the host does not report one.
\<close>

type_synonym os = "string \<Rightarrow> string option"

text \<open>
  The exceptions: \<^verbatim>\<open>FileSystemException\<close> with its message, thrown by the functions of
  this file, and \<^verbatim>\<open>std::filesystem::filesystem_error\<close>, thrown by the library.
\<close>

datatype exn = FileSystemException string | filesystem_error

section \<open>ExecuteSync\<close>

text \<open>
  \<^verbatim>\<open>while (fgets(buffer.data(), buffer.size(), pipe.get()) != nullptr) result += buffer.data();\<close>
\<close>

function sync_loop :: "string \<Rightarrow> string \<Rightarrow> string" where
  "sync_loop pipe result =
     (case fgets buffer_size pipe of
        None \<Rightarrow> result
      | Some (buffer, pipe') \<Rightarrow> sync_loop pipe' (result @ c_str buffer))"
  by pat_completeness auto

termination sync_loop
  by (relation "measure (\<lambda>(pipe, result). length pipe)") (auto dest: fgets_progress)

declare sync_loop.simps [simp del]

definition ExecuteSync :: "os \<Rightarrow> string \<Rightarrow> exn + string" where
  "ExecuteSync popen cmd =
     (case popen cmd of
        None \<Rightarrow> Inl (FileSystemException ''popen() failed!'')
      | Some pipe \<Rightarrow> Inr (sync_loop pipe []))"

section \<open>ExecuteAsync\<close>

text \<open>
  The lambda captures \<^verbatim>\<open>cmd\<close> and \<^verbatim>\<open>ostr\<close> by reference (\<^verbatim>\<open>[&]\<close>): the background
  thread holds the addresses of the caller's string and stream, not their values.
  The caller's objects live in a store; an address with no object (\<open>None\<close>) is an
  object whose lifetime has ended.
\<close>

type_synonym addr = nat

text \<open>
  Where the background thread stands in the lambda: before \<^verbatim>\<open>popen\<close>; inside the read
  loop, with the bytes the pipe has still to deliver; or finished, its result (normal
  return, or the exception thrown) stored in the shared state of the future.
\<close>

datatype thread_state =
    NotStarted
  | Reading string
  | Ready "exn + unit"

fun is_Ready :: "thread_state \<Rightarrow> bool" where
  "is_Ready (Ready r) = True"
| "is_Ready st = False"

text \<open>
  The state of a \<^verbatim>\<open>std::ostream\<close> that a formatted insertion depends on: the bytes the
  stream has received so far, the field width, the fill character, whether the
  adjustment is \<^verbatim>\<open>left\<close>, and whether the stream is in good state.
\<close>

record ostream =
  written :: string
  width :: nat
  fill :: char
  adjust_left :: bool
  good :: bool

text \<open>
  \<^verbatim>\<open>ostr << s\<close> for a C string \<open>s\<close>, a formatted insertion. On a stream that is not in
  good state the sentry fails and nothing is written. Otherwise the string is written,
  padded with the fill character up to the field width (after the string when the
  adjustment is \<^verbatim>\<open>left\<close>, before it otherwise), and the field width is reset to 0.
  The stream accepts what is written to it.
\<close>

definition insert_c_string :: "string \<Rightarrow> ostream \<Rightarrow> ostream" where
  "insert_c_string s os =
     (if good os then
        os\<lparr>written := written os @
               (if adjust_left os then s @ replicate (width os - length s) (fill os)
                else replicate (width os - length s) (fill os) @ s),
           width := 0\<rparr>
      else os)"

text \<open>
  One transition of the lambda, on the objects its captures refer to: the command
  string, the thread's position and the content of the stream. The first transition
  reads the command string and calls \<^verbatim>\<open>popen\<close>, and throws when the pipe is null; each
  later one is an iteration of the read loop, \<^verbatim>\<open>ostr << buffer.data()\<close> inserting the
  buffer as a C string into the stream; at the end of the output the lambda returns.
  The result is the new position, the new state of the stream and the commands handed to \<^verbatim>\<open>popen\<close> by this transition; \<open>None\<close> is
  undefined behaviour (a read or write through a dangling reference).
\<close>

definition lambda_step ::
  "os \<Rightarrow> string option \<Rightarrow> thread_state \<Rightarrow> ostream option \<Rightarrow>
     (thread_state \<times> ostream option \<times> string list) option" where
  "lambda_step popen cmd st ostr =
     (case st of
        NotStarted \<Rightarrow>
          (case cmd of
             None \<Rightarrow> None
           | Some c \<Rightarrow>
               (case popen c of
                  None \<Rightarrow> Some (Ready (Inl (FileSystemException ''popen() failed!'')), ostr, [c])
                | Some pipe \<Rightarrow> Some (Reading pipe, ostr, [c])))
      | Reading pipe \<Rightarrow>
          (case fgets buffer_size pipe of
             None \<Rightarrow> Some (Ready (Inr ()), ostr, [])
           | Some (buffer, pipe') \<Rightarrow>
               (case ostr of
                  None \<Rightarrow> None
                | Some os \<Rightarrow> Some (Reading pipe', Some (insert_c_string (c_str buffer) os), [])))
      | Ready r \<Rightarrow> Some (Ready r, ostr, []))"

text \<open>
  A background task: the two references that its lambda captured, and the position of
  its thread.
\<close>

record task =
  cmd_ref :: addr
  ostr_ref :: addr
  state :: thread_state

text \<open>
  The program state: the caller's strings and streams, the background tasks started
  by \<^verbatim>\<open>std::async\<close> (a task's index identifies its shared state), and the log of
  \<^verbatim>\<open>popen\<close> calls, each with the task that made it.
\<close>

record world =
  strings :: "addr \<rightharpoonup> string"
  ostreams :: "addr \<rightharpoonup> ostream"
  tasks :: "task list"
  popen_calls :: "(nat \<times> string) list"

text \<open>The scheduler lets thread \<open>i\<close> make one transition.\<close>

definition step :: "os \<Rightarrow> nat \<Rightarrow> world \<Rightarrow> world option" where
  "step popen i w =
     (if i < length (tasks w) then
        (let t = tasks w ! i in
         case lambda_step popen (strings w (cmd_ref t)) (state t) (ostreams w (ostr_ref t)) of
           None \<Rightarrow> None
         | Some (st', ostr', calls) \<Rightarrow>
             Some (w\<lparr>ostreams := (ostreams w)(ostr_ref t := ostr'),
                      tasks := (tasks w)[i := t\<lparr>state := st'\<rparr>],
                      popen_calls := popen_calls w @ map (Pair i) calls\<rparr>))
      else Some w)"

text \<open>An interleaving of the threads: the list of the threads scheduled, in order.\<close>

fun run :: "os \<Rightarrow> nat list \<Rightarrow> world \<Rightarrow> world option" where
  "run popen [] w = Some w"
| "run popen (i # sched) w =
     (case step popen i w of None \<Rightarrow> None | Some w' \<Rightarrow> run popen sched w')"

text \<open>
  \<^verbatim>\<open>std::future<void>\<close>: a reference to the shared state, and whether the future still
  refers to it (\<^verbatim>\<open>valid()\<close>).
\<close>

record future =
  shared_state :: nat
  valid :: bool

text \<open>
  \<^verbatim>\<open>std::async(std::launch::async, [&] { ... })\<close> starts a thread for the lambda and
  returns the future of its result; \<^verbatim>\<open>ExecuteAsync\<close> returns that future. Nothing of the
  lambda's body runs on the caller's thread. The transitions that the new thread makes
  while the call is still returning are those of a schedule that runs after the call.
\<close>

definition ExecuteAsync :: "addr \<Rightarrow> addr \<Rightarrow> world \<Rightarrow> future \<times> world" where
  "ExecuteAsync cmd ostr w =
     (\<lparr>shared_state = length (tasks w), valid = True\<rparr>,
      w\<lparr>tasks := tasks w @ [\<lparr>cmd_ref = cmd, ostr_ref = ostr, state = NotStarted\<rparr>]\<rparr>)"

text \<open>
  Blocking until the shared state is ready: thread \<open>i\<close> makes its remaining
  transitions.
\<close>

definition remaining :: "os \<Rightarrow> nat \<Rightarrow> world \<Rightarrow> nat" where
  "remaining popen i w =
     (case state (tasks w ! i) of
        NotStarted \<Rightarrow>
          (case strings w (cmd_ref (tasks w ! i)) of
             None \<Rightarrow> 0
           | Some c \<Rightarrow> (case popen c of None \<Rightarrow> 1 | Some pipe \<Rightarrow> length pipe + 2))
      | Reading pipe \<Rightarrow> length pipe + 1
      | Ready r \<Rightarrow> 0)"

function wait :: "os \<Rightarrow> nat \<Rightarrow> world \<Rightarrow> world option" where
  "wait popen i w =
     (if i < length (tasks w) \<and> \<not> is_Ready (state (tasks w ! i)) then
        (case step popen i w of None \<Rightarrow> None | Some w' \<Rightarrow> wait popen i w')
      else Some w)"
  by pat_completeness auto

lemma step_remaining:
  assumes "i < length (tasks w)" and "\<not> is_Ready (state (tasks w ! i))"
    and "step popen i w = Some w'"
  shows "remaining popen i w' < remaining popen i w"
  using assms
  by (auto simp: step_def remaining_def lambda_step_def Let_def
      split: thread_state.splits option.splits dest: fgets_progress)

termination wait
  by (relation "measure (\<lambda>(popen, i, w). remaining popen i w)") (auto dest: step_remaining)

declare wait.simps [simp del]

text \<open>
  \<^verbatim>\<open>future::wait()\<close> blocks until the result is ready and leaves the future valid.
  \<^verbatim>\<open>future::get()\<close> waits, hands over the stored result (returns, or rethrows the stored
  exception: \<open>Inl\<close>) and releases the shared state, so that \<^verbatim>\<open>valid()\<close> is false
  afterwards. Calling either on a future that is not valid is undefined behaviour
  (\<open>None\<close>).
\<close>

definition future_wait :: "os \<Rightarrow> future \<Rightarrow> world \<Rightarrow> world option" where
  "future_wait popen f w = (if valid f then wait popen (shared_state f) w else None)"

definition future_get :: "os \<Rightarrow> future \<Rightarrow> world \<Rightarrow> ((exn + unit) \<times> future \<times> world) option" where
  "future_get popen f w =
     (if valid f then
        (case wait popen (shared_state f) w of
           None \<Rightarrow> None
         | Some w' \<Rightarrow>
             (case state (tasks w' ! shared_state f) of
                Ready r \<Rightarrow> Some (r, f\<lparr>valid := False\<rparr>, w')
              | _ \<Rightarrow> None))
      else None)"

text \<open>
  The lifetime of a string that the caller owns ends while a task holds a reference to
  it: a temporary at the end of the full-expression, a local at the end of its scope.
\<close>

definition destroy :: "addr \<Rightarrow> world \<Rightarrow> world" where
  "destroy a w = w\<lparr>strings := (strings w)(a := None)\<rparr>"

subsection \<open>What is observed of a thread\<close>

text \<open>
  What the read loop makes of a stream when the pipe has still \<open>pipe\<close> to deliver: the
  buffers read are inserted one after the other, each as a C string.
\<close>

definition forward :: "string \<Rightarrow> ostream \<Rightarrow> ostream" where
  "forward pipe os = foldl (\<lambda>s buffer. insert_c_string (c_str buffer) s) os (chunks pipe)"

text \<open>
  What a thread at position \<open>st\<close> produces by the time it has finished, when no other
  thread touches its stream: the result stored in the shared state and the final
  state of the stream (\<open>None\<close>: undefined behaviour on the way).
\<close>

definition lambda_result ::
  "os \<Rightarrow> string option \<Rightarrow> thread_state \<Rightarrow> ostream option \<Rightarrow>
     ((exn + unit) \<times> ostream option) option" where
  "lambda_result popen cmd st ostr =
     (let read_all = (\<lambda>pipe.
            if pipe = [] then Some (Inr (), ostr)
            else (case ostr of
                    None \<Rightarrow> None
                  | Some os \<Rightarrow> Some (Inr (), Some (forward pipe os))))
      in case st of
           NotStarted \<Rightarrow>
             (case cmd of
                None \<Rightarrow> None
              | Some c \<Rightarrow>
                  (case popen c of
                     None \<Rightarrow> Some (Inl (FileSystemException ''popen() failed!''), ostr)
                   | Some pipe \<Rightarrow> read_all pipe))
         | Reading pipe \<Rightarrow> read_all pipe
         | Ready r \<Rightarrow> Some (r, ostr))"

text \<open>The same, for thread \<open>i\<close> of a world.\<close>

definition result_of :: "os \<Rightarrow> nat \<Rightarrow> world \<Rightarrow> ((exn + unit) \<times> ostream option) option" where
  "result_of popen i w =
     lambda_result popen (strings w (cmd_ref (tasks w ! i))) (state (tasks w ! i))
       (ostreams w (ostr_ref (tasks w ! i)))"

text \<open>
  What the awaiting party observes: the result of \<^verbatim>\<open>get()\<close> and the state of the
  stream \<open>ostr\<close> afterwards.
\<close>

definition outcome ::
  "addr \<Rightarrow> ((exn + unit) \<times> future \<times> world) option \<Rightarrow> ((exn + unit) \<times> ostream option) option" where
  "outcome ostr g = map_option (\<lambda>(r, f', w'). (r, ostreams w' ostr)) g"

text \<open>The number of processes that thread \<open>i\<close> has spawned.\<close>

definition spawned :: "nat \<Rightarrow> world \<Rightarrow> nat" where
  "spawned i w = length (filter (\<lambda>p. fst p = i) (popen_calls w))"

section \<open>FindExecutableInPath\<close>



text \<open>
  What \<^verbatim>\<open>std::filesystem::status(p)\<close> finds for a path name: no file, a file, or an
  error other than not finding it (a directory on the way that cannot be searched, a
  name that is too long, a loop of links).
\<close>

datatype file_status = NotFound | Found | StatusError

text \<open>
  \<^verbatim>\<open>std::filesystem::exists(p)\<close>, the overload that throws, over the file system \<open>fs\<close>:
  the empty path names no file (\<^verbatim>\<open>status("")\<close> reports \<^verbatim>\<open>not_found\<close>), and an error of
  the status query is thrown as \<^verbatim>\<open>filesystem_error\<close>.
\<close>

definition exists :: "(string \<Rightarrow> file_status) \<Rightarrow> string \<Rightarrow> exn + bool" where
  "exists fs p =
     (if p = [] then Inr False
      else (case fs p of
              NotFound \<Rightarrow> Inr False
            | Found \<Rightarrow> Inr True
            | StatusError \<Rightarrow> Inl filesystem_error))"











subsection \<open>The path operations on a POSIX system\<close>







section \<open>An example host and caller\<close>

text \<open>
  A host for the examples: \<^verbatim>\<open>echo hello\<close> prints a line, \<^verbatim>\<open>cat blob.bin\<close> prints
  bytes with a zero byte among them, and no other command can be spawned.
\<close>

definition demo_os :: os where
  "demo_os c =
     (if c = ''echo hello'' then Some (''hello'' @ [newline])
      else if c = ''cat blob.bin'' then Some ([CHR ''a'', NUL, CHR ''b'', newline, CHR ''c''])
      else None)"

text \<open>A default-constructed \<^verbatim>\<open>std::ostringstream\<close>.\<close>

definition ostringstream :: ostream where
  "ostringstream =
     \<lparr>written = [], width = 0, fill = CHR 0x20, adjust_left = False, good = True\<rparr>"

text \<open>
  A caller with three command strings (at addresses 0, 1 and 2) and four string
  streams: two as constructed (at addresses 10 and 11), one after \<^verbatim>\<open>width(10)\<close> (at 12)
  and one after \<^verbatim>\<open>setstate(std::ios::failbit)\<close> (at 13). No task is started yet.
\<close>

definition demo_world :: world where
  "demo_world =
     \<lparr>strings = [0 \<mapsto> ''echo hello'', 1 \<mapsto> ''__not_a_real_binary__'',
                 2 \<mapsto> ''cat blob.bin''],
      ostreams = [10 \<mapsto> ostringstream, 11 \<mapsto> ostringstream,
                  12 \<mapsto> ostringstream\<lparr>width := 10\<rparr>,
                  13 \<mapsto> ostringstream\<lparr>good := False\<rparr>],
      tasks = [],
      popen_calls = []\<rparr>"


section \<open>Properties of the read loop\<close>

lemma read_line_concat: "read_line k s = (l, r) \<Longrightarrow> l @ r = s"
  by (induction k s arbitrary: l r rule: read_line.induct)
    (auto split: if_splits prod.splits)

lemma read_line_bound: "read_line k s = (l, r) \<Longrightarrow> length l \<le> k"
  by (induction k s arbitrary: l r rule: read_line.induct)
    (auto split: if_splits prod.splits)

lemma read_line_nonempty: "s \<noteq> [] \<Longrightarrow> read_line (Suc k) s = (l, r) \<Longrightarrow> l \<noteq> []"
  by (cases s) (auto split: if_splits prod.splits)

lemma read_line_newline: "read_line k s = (l, r) \<Longrightarrow> newline \<notin> set (butlast l)"
  by (induction k s arbitrary: l r rule: read_line.induct)
    (auto split: if_splits prod.splits)

lemma read_line_full:
  "read_line k s = (l, r) \<Longrightarrow> length l < k \<Longrightarrow> r \<noteq> [] \<Longrightarrow> last l = newline \<and> l \<noteq> []"
  by (induction k s arbitrary: l r rule: read_line.induct)
    (auto split: if_splits prod.splits)

lemma fgets_Some:
  assumes "fgets buffer_size pipe = Some (buffer, pipe')"
  shows "buffer @ pipe' = pipe" and "buffer \<noteq> []" and "length buffer \<le> 127"
    and "newline \<notin> set (butlast buffer)"
    and "length buffer < 127 \<Longrightarrow> pipe' \<noteq> [] \<Longrightarrow> last buffer = newline"
proof -
  have k: "buffer_size - 1 = Suc 126"
    by (simp add: buffer_size_def)
  from assms have ne: "pipe \<noteq> []" and rl: "read_line (Suc 126) pipe = (buffer, pipe')"
    unfolding k [symmetric] by (auto simp: fgets_def split: if_splits)
  show "buffer @ pipe' = pipe" using rl by (rule read_line_concat)
  show "buffer \<noteq> []" using ne rl by (rule read_line_nonempty)
  show "length buffer \<le> 127" using read_line_bound [OF rl] by simp
  show "newline \<notin> set (butlast buffer)" using rl by (rule read_line_newline)
  show "length buffer < 127 \<Longrightarrow> pipe' \<noteq> [] \<Longrightarrow> last buffer = newline"
    using read_line_full [OF rl] by simp
qed

lemma fgets_None: "fgets buffer_size pipe = None \<longleftrightarrow> pipe = []"
  by (simp add: fgets_def)

lemma chunks_Nil: "chunks [] = []"
  by (simp add: chunks.simps [of "[]"] fgets_def)

lemma chunks_Cons:
  "fgets buffer_size pipe = Some (buffer, pipe') \<Longrightarrow> chunks pipe = buffer # chunks pipe'"
  by (simp add: chunks.simps [of pipe])

lemma chunks_concat: "concat (chunks pipe) = pipe"
proof (induction pipe rule: chunks.induct)
  case (1 pipe)
  show ?case
  proof (cases "fgets buffer_size pipe")
    case None
    then have "pipe = []" by (simp add: fgets_None)
    with None show ?thesis by (simp add: chunks.simps [of "[]"])
  next
    case (Some p)
    obtain buffer pipe' where p: "p = (buffer, pipe')" by (cases p)
    from Some p "1.IH" have "concat (chunks pipe') = pipe'" by simp
    with Some p fgets_Some(1) [of pipe buffer pipe'] show ?thesis
      by (simp add: chunks.simps [of pipe])
  qed
qed

lemma chunks_ok: "b \<in> set (chunks pipe) \<Longrightarrow> b \<noteq> [] \<and> length b \<le> 127 \<and> newline \<notin> set (butlast b)"
proof (induction pipe rule: chunks.induct)
  case (1 pipe)
  show ?case
  proof (cases "fgets buffer_size pipe")
    case None
    with "1.prems" show ?thesis by (simp add: chunks.simps [of pipe])
  next
    case (Some p)
    obtain buffer pipe' where p: "p = (buffer, pipe')" by (cases p)
    from "1.prems" Some p have "b = buffer \<or> b \<in> set (chunks pipe')"
      by (simp add: chunks.simps [of pipe])
    then show ?thesis
    proof
      assume "b = buffer"
      with Some p fgets_Some(2,3,4) [of pipe buffer pipe'] show ?thesis by simp
    next
      assume "b \<in> set (chunks pipe')"
      with Some p "1.IH" show ?thesis by simp
    qed
  qed
qed

lemma sync_loop_chunks: "sync_loop pipe result = result @ concat (map c_str (chunks pipe))"
proof (induction pipe result rule: sync_loop.induct)
  case (1 pipe result)
  show ?case
  proof (cases "fgets buffer_size pipe")
    case None
    then show ?thesis by (simp add: sync_loop.simps [of pipe] chunks.simps [of pipe])
  next
    case (Some p)
    obtain buffer pipe' where p: "p = (buffer, pipe')" by (cases p)
    with Some "1.IH" show ?thesis
      by (simp add: sync_loop.simps [of pipe] chunks.simps [of pipe])
  qed
qed

lemma c_str_id: "NUL \<notin> set b \<Longrightarrow> c_str b = b"
  by (auto simp: c_str_def takeWhile_eq_all_conv)

lemma c_str_NUL: "NUL \<notin> set a \<Longrightarrow> c_str (a @ NUL # b) = a"
  by (auto simp: c_str_def takeWhile_append)

lemma chunks_nul_free: "NUL \<notin> set pipe \<Longrightarrow> concat (map c_str (chunks pipe)) = pipe"
proof -
  assume a: "NUL \<notin> set pipe"
  have "set pipe = \<Union> (set ` set (chunks pipe))"
    using chunks_concat [of pipe] by (metis set_concat)
  with a have "\<forall>b \<in> set (chunks pipe). NUL \<notin> set b" by auto
  then have "map c_str (chunks pipe) = chunks pipe"
    by (simp add: c_str_id map_idI)
  then show ?thesis by (simp add: chunks_concat)
qed

lemma forward_Nil: "forward [] os = os"
  by (simp add: forward_def chunks_Nil)

lemma forward_Cons:
  "fgets buffer_size pipe = Some (buffer, pipe') \<Longrightarrow>
    forward pipe os = forward pipe' (insert_c_string (c_str buffer) os)"
  by (simp add: forward_def chunks_Cons)

lemma insert_c_string_plain:
  "good os \<Longrightarrow> width os = 0 \<Longrightarrow> insert_c_string s os = os\<lparr>written := written os @ s\<rparr>"
  by (cases os) (simp add: insert_c_string_def)

lemma insert_c_string_failed: "\<not> good os \<Longrightarrow> insert_c_string s os = os"
  by (simp add: insert_c_string_def)

lemma foldl_insert_plain:
  "good os \<Longrightarrow> width os = 0 \<Longrightarrow>
    foldl (\<lambda>s b. insert_c_string (c_str b) s) os bs =
      os\<lparr>written := written os @ concat (map c_str bs)\<rparr>"
proof (induction bs arbitrary: os)
  case Nil
  then show ?case by simp
next
  case (Cons b bs)
  let ?os = "os\<lparr>written := written os @ c_str b\<rparr>"
  from Cons.prems have "insert_c_string (c_str b) os = ?os"
    by (rule insert_c_string_plain)
  moreover from Cons.prems have "foldl (\<lambda>s b. insert_c_string (c_str b) s) ?os bs =
      ?os\<lparr>written := written ?os @ concat (map c_str bs)\<rparr>"
    by (intro Cons.IH) simp_all
  ultimately show ?case by simp
qed

lemma forward_plain:
  "good os \<Longrightarrow> width os = 0 \<Longrightarrow>
    forward pipe os = os\<lparr>written := written os @ concat (map c_str (chunks pipe))\<rparr>"
  unfolding forward_def by (rule foldl_insert_plain)

lemma forward_failed: "\<not> good os \<Longrightarrow> forward pipe os = os"
proof -
  assume n: "\<not> good os"
  have "foldl (\<lambda>s b. insert_c_string (c_str b) s) os bs = os" for bs
    by (induction bs) (simp_all add: insert_c_string_failed n)
  then show ?thesis by (simp add: forward_def)
qed

section \<open>Properties of the background thread\<close>

lemma wait_Ready:
  "i < length (tasks w) \<Longrightarrow> state (tasks w ! i) = Ready r \<Longrightarrow> wait popen i w = Some w"
  by (simp add: wait.simps [of popen i w])

lemma wait_out_of_range: "\<not> i < length (tasks w) \<Longrightarrow> wait popen i w = Some w"
  by (simp add: wait.simps [of popen i w])

lemma step_Reading_eof:
  assumes "i < length (tasks w)" and "state (tasks w ! i) = Reading []"
  shows "step popen i w = Some (w\<lparr>tasks := (tasks w)[i := (tasks w ! i)\<lparr>state := Ready (Inr ())\<rparr>]\<rparr>)"
  using assms by (simp add: step_def lambda_step_def fgets_def Let_def)

lemma step_Reading_chunk:
  assumes "i < length (tasks w)" and "state (tasks w ! i) = Reading pipe"
    and "fgets buffer_size pipe = Some (buffer, pipe')"
    and "ostreams w (ostr_ref (tasks w ! i)) = Some os"
  shows "step popen i w =
    Some (w\<lparr>ostreams := (ostreams w)(ostr_ref (tasks w ! i) \<mapsto> insert_c_string (c_str buffer) os),
            tasks := (tasks w)[i := (tasks w ! i)\<lparr>state := Reading pipe'\<rparr>]\<rparr>)"
  using assms by (simp add: step_def lambda_step_def Let_def)

lemma wait_Reading:
  assumes "i < length (tasks w)" and "state (tasks w ! i) = Reading pipe"
    and "ostreams w (ostr_ref (tasks w ! i)) = Some os"
  shows "wait popen i w =
    Some (w\<lparr>ostreams := (ostreams w)(ostr_ref (tasks w ! i) \<mapsto>
                 forward pipe os),
            tasks := (tasks w)[i := (tasks w ! i)\<lparr>state := Ready (Inr ())\<rparr>]\<rparr>)"
  using assms
proof (induction pipe arbitrary: w os rule: chunks.induct)
  case (1 pipe)
  let ?t = "tasks w ! i"
  show ?case
  proof (cases "fgets buffer_size pipe")
    case None
    then have e: "pipe = []" by (simp add: fgets_None)
    let ?w' = "w\<lparr>tasks := (tasks w)[i := ?t\<lparr>state := Ready (Inr ())\<rparr>]\<rparr>"
    from "1.prems" e have s: "step popen i w = Some ?w'"
      by (simp add: step_Reading_eof)
    from "1.prems" have "wait popen i ?w' = Some ?w'"
      by (intro wait_Ready [where r = "Inr ()"]) simp_all
    with s "1.prems" have "wait popen i w = Some ?w'"
      by (simp add: wait.simps [of popen i w])
    moreover from "1.prems" e have "(ostreams w)(ostr_ref ?t \<mapsto>
        forward pipe os) = ostreams w"
      by (auto simp: forward_Nil)
    ultimately show ?thesis by simp
  next
    case (Some p)
    obtain buffer pipe' where p: "p = (buffer, pipe')" by (cases p)
    let ?w' = "w\<lparr>ostreams := (ostreams w)(ostr_ref ?t \<mapsto> insert_c_string (c_str buffer) os),
            tasks := (tasks w)[i := ?t\<lparr>state := Reading pipe'\<rparr>]\<rparr>"
    from "1.prems" Some p have s: "step popen i w = Some ?w'"
      by (simp add: step_Reading_chunk)
    from "1.prems" have B: "wait popen i ?w' =
      Some (?w'\<lparr>ostreams := (ostreams ?w')(ostr_ref (tasks ?w' ! i) \<mapsto>
                 forward pipe' (insert_c_string (c_str buffer) os)),
            tasks := (tasks ?w')[i := (tasks ?w' ! i)\<lparr>state := Ready (Inr ())\<rparr>]\<rparr>)"
      (is "_ = Some ?X")
      by (intro "1.IH" [OF Some p [symmetric]]) simp_all
    from s "1.prems" have A: "wait popen i w = wait popen i ?w'"
      by (simp add: wait.simps [of popen i w])
    from Some p have c: "chunks pipe = buffer # chunks pipe'"
      by (simp add: chunks.simps [of pipe])
    have C: "?X = w\<lparr>ostreams := (ostreams w)(ostr_ref ?t \<mapsto>
                 forward pipe os),
            tasks := (tasks w)[i := ?t\<lparr>state := Ready (Inr ())\<rparr>]\<rparr>"
      using "1.prems"(1) by (intro world.equality) (simp_all add: c forward_def)
    show ?thesis
      by (simp only: A B C)
  qed
qed

lemma step_NotStarted_fail:
  assumes "i < length (tasks w)" and "state (tasks w ! i) = NotStarted"
    and "strings w (cmd_ref (tasks w ! i)) = Some c" and "popen c = None"
  shows "step popen i w =
    Some (w\<lparr>tasks := (tasks w)[i := (tasks w ! i)
                 \<lparr>state := Ready (Inl (FileSystemException ''popen() failed!''))\<rparr>],
            popen_calls := popen_calls w @ [(i, c)]\<rparr>)"
  using assms by (simp add: step_def lambda_step_def Let_def)

lemma step_NotStarted_ok:
  assumes "i < length (tasks w)" and "state (tasks w ! i) = NotStarted"
    and "strings w (cmd_ref (tasks w ! i)) = Some c" and "popen c = Some pipe"
  shows "step popen i w =
    Some (w\<lparr>tasks := (tasks w)[i := (tasks w ! i)\<lparr>state := Reading pipe\<rparr>],
            popen_calls := popen_calls w @ [(i, c)]\<rparr>)"
  using assms by (simp add: step_def lambda_step_def Let_def)

lemma step_NotStarted_dangling:
  assumes "i < length (tasks w)" and "state (tasks w ! i) = NotStarted"
    and "strings w (cmd_ref (tasks w ! i)) = None"
  shows "step popen i w = None"
  using assms by (simp add: step_def lambda_step_def Let_def)

lemma wait_NotStarted_dangling:
  assumes "i < length (tasks w)" and "state (tasks w ! i) = NotStarted"
    and "strings w (cmd_ref (tasks w ! i)) = None"
  shows "wait popen i w = None"
  using assms by (simp add: wait.simps [of popen i w] step_NotStarted_dangling)

lemma wait_NotStarted_fail:
  assumes "i < length (tasks w)" and "state (tasks w ! i) = NotStarted"
    and "strings w (cmd_ref (tasks w ! i)) = Some c" and "popen c = None"
  shows "wait popen i w =
    Some (w\<lparr>tasks := (tasks w)[i := (tasks w ! i)
                 \<lparr>state := Ready (Inl (FileSystemException ''popen() failed!''))\<rparr>],
            popen_calls := popen_calls w @ [(i, c)]\<rparr>)"
    (is "_ = Some ?w'")
proof -
  from assms have "step popen i w = Some ?w'"
    by (rule step_NotStarted_fail)
  with assms have "wait popen i w = wait popen i ?w'"
    by (simp add: wait.simps [of popen i w])
  also from assms(1) have "\<dots> = Some ?w'"
    by (intro wait_Ready [where r = "Inl (FileSystemException ''popen() failed!'')"]) simp_all
  finally show ?thesis .
qed

lemma wait_NotStarted_ok:
  assumes "i < length (tasks w)" and "state (tasks w ! i) = NotStarted"
    and "strings w (cmd_ref (tasks w ! i)) = Some c" and "popen c = Some pipe"
    and "ostreams w (ostr_ref (tasks w ! i)) = Some os"
  shows "wait popen i w =
    Some (w\<lparr>ostreams := (ostreams w)(ostr_ref (tasks w ! i) \<mapsto>
                 forward pipe os),
            tasks := (tasks w)[i := (tasks w ! i)\<lparr>state := Ready (Inr ())\<rparr>],
            popen_calls := popen_calls w @ [(i, c)]\<rparr>)"
    (is "_ = Some ?w''")
proof -
  let ?w' = "w\<lparr>tasks := (tasks w)[i := (tasks w ! i)\<lparr>state := Reading pipe\<rparr>],
            popen_calls := popen_calls w @ [(i, c)]\<rparr>"
  from assms(1-4) have "step popen i w = Some ?w'"
    by (rule step_NotStarted_ok)
  with assms have A: "wait popen i w = wait popen i ?w'"
    by (simp add: wait.simps [of popen i w])
  from assms have B: "wait popen i ?w' =
    Some (?w'\<lparr>ostreams := (ostreams ?w')(ostr_ref (tasks ?w' ! i) \<mapsto>
                 forward pipe os),
            tasks := (tasks ?w')[i := (tasks ?w' ! i)\<lparr>state := Ready (Inr ())\<rparr>]\<rparr>)"
    (is "_ = Some ?X")
    by (intro wait_Reading) simp_all
  have C: "?X = ?w''"
    using assms(1) by (intro world.equality) simp_all
  show ?thesis
    by (simp only: A B C)
qed

lemma ExecuteAsync_world:
  assumes "ExecuteAsync cmd ostr w = (f, w1)"
  shows "shared_state f = length (tasks w)" and "valid f"
    and "shared_state f < length (tasks w1)"
    and "tasks w1 ! shared_state f = \<lparr>cmd_ref = cmd, ostr_ref = ostr, state = NotStarted\<rparr>"
    and "strings w1 = strings w" and "ostreams w1 = ostreams w"
    and "popen_calls w1 = popen_calls w"
    and "tasks w1 = tasks w @ [\<lparr>cmd_ref = cmd, ostr_ref = ostr, state = NotStarted\<rparr>]"
  using assms by (auto simp: ExecuteAsync_def)

lemma future_get_fail:
  assumes "valid f" and "shared_state f < length (tasks w)"
    and "state (tasks w ! shared_state f) = NotStarted"
    and "strings w (cmd_ref (tasks w ! shared_state f)) = Some c" and "popen c = None"
  shows "future_get popen f w =
    Some (Inl (FileSystemException ''popen() failed!''), f\<lparr>valid := False\<rparr>,
          w\<lparr>tasks := (tasks w)[shared_state f := (tasks w ! shared_state f)
                 \<lparr>state := Ready (Inl (FileSystemException ''popen() failed!''))\<rparr>],
            popen_calls := popen_calls w @ [(shared_state f, c)]\<rparr>)"
  using assms by (simp add: future_get_def wait_NotStarted_fail)

lemma future_get_ok:
  assumes "valid f" and "shared_state f < length (tasks w)"
    and "state (tasks w ! shared_state f) = NotStarted"
    and "strings w (cmd_ref (tasks w ! shared_state f)) = Some c" and "popen c = Some pipe"
    and "ostreams w (ostr_ref (tasks w ! shared_state f)) = Some os"
  shows "future_get popen f w =
    Some (Inr (), f\<lparr>valid := False\<rparr>,
          w\<lparr>ostreams := (ostreams w)(ostr_ref (tasks w ! shared_state f) \<mapsto>
                 forward pipe os),
            tasks := (tasks w)[shared_state f := (tasks w ! shared_state f)
                 \<lparr>state := Ready (Inr ())\<rparr>],
            popen_calls := popen_calls w @ [(shared_state f, c)]\<rparr>)"
  using assms by (simp add: future_get_def wait_NotStarted_ok)

lemma ExecuteAsync_get_fail:
  assumes "ExecuteAsync cmd ostr w = (f, w1)" and "strings w cmd = Some c" and "popen c = None"
  shows "future_get popen f w1 =
    Some (Inl (FileSystemException ''popen() failed!''), f\<lparr>valid := False\<rparr>,
          w1\<lparr>tasks := (tasks w1)[shared_state f := (tasks w1 ! shared_state f)
                 \<lparr>state := Ready (Inl (FileSystemException ''popen() failed!''))\<rparr>],
            popen_calls := popen_calls w1 @ [(shared_state f, c)]\<rparr>)"
  using assms ExecuteAsync_world [OF assms(1)]
  by (intro future_get_fail) simp_all

lemma ExecuteAsync_get_ok:
  assumes "ExecuteAsync cmd ostr w = (f, w1)" and "strings w cmd = Some c"
    and "popen c = Some pipe" and "ostreams w ostr = Some os"
  shows "future_get popen f w1 =
    Some (Inr (), f\<lparr>valid := False\<rparr>,
          w1\<lparr>ostreams := (ostreams w)(ostr \<mapsto> forward pipe os),
            tasks := (tasks w1)[shared_state f := (tasks w1 ! shared_state f)
                 \<lparr>state := Ready (Inr ())\<rparr>],
            popen_calls := popen_calls w1 @ [(shared_state f, c)]\<rparr>)"
proof -
  note e = ExecuteAsync_world [OF assms(1)]
  have "future_get popen f w1 =
    Some (Inr (), f\<lparr>valid := False\<rparr>,
          w1\<lparr>ostreams := (ostreams w1)(ostr_ref (tasks w1 ! shared_state f) \<mapsto>
                 forward pipe os),
            tasks := (tasks w1)[shared_state f := (tasks w1 ! shared_state f)
                 \<lparr>state := Ready (Inr ())\<rparr>],
            popen_calls := popen_calls w1 @ [(shared_state f, c)]\<rparr>)"
    using assms e by (intro future_get_ok) simp_all
  then show ?thesis
    by (simp add: e(4,6))
qed

subsection \<open>The result of a thread is fixed from its first transition\<close>

lemma lambda_step_result:
  assumes "lambda_step popen cmd st ostr = Some (st', ostr', calls)"
  shows "lambda_result popen cmd st' ostr' = lambda_result popen cmd st ostr"
proof (cases st)
  case NotStarted
  with assms show ?thesis
    by (auto simp: lambda_step_def lambda_result_def split: option.splits)
next
  case (Reading pipe)
  show ?thesis
  proof (cases "fgets buffer_size pipe")
    case None
    with assms Reading show ?thesis
      by (auto simp: lambda_step_def lambda_result_def fgets_None)
  next
    case (Some p)
    obtain buffer pipe' where p: "p = (buffer, pipe')" by (cases p)
    from Some p have ne: "pipe \<noteq> []" by (auto simp: fgets_def split: if_splits)
    from Some p have c: "chunks pipe = buffer # chunks pipe'" by (simp add: chunks_Cons)
    from Some p have fw: "forward pipe os = forward pipe' (insert_c_string (c_str buffer) os)"
      for os by (simp add: forward_Cons)
    from assms Reading Some p ne show ?thesis
      by (auto simp: lambda_step_def lambda_result_def fw forward_Nil split: option.splits)
  qed
next
  case (Ready r)
  with assms show ?thesis
    by (auto simp: lambda_step_def lambda_result_def)
qed

lemma lambda_step_None:
  assumes "lambda_step popen cmd st ostr = None"
  shows "lambda_result popen cmd st ostr = None"
  using assms
  by (auto simp: lambda_step_def lambda_result_def fgets_def
      split: thread_state.splits option.splits if_splits)

lemma step_own_result:
  assumes "i < length (tasks w)" and "step popen i w = Some w'"
  shows "result_of popen i w' = result_of popen i w"
  using assms
  by (auto simp: step_def Let_def result_of_def lambda_step_result split: option.splits)

lemma step_own_None:
  assumes "i < length (tasks w)" and "step popen i w = None"
  shows "result_of popen i w = None"
  using assms
  by (auto simp: step_def Let_def result_of_def lambda_step_None split: option.splits)

lemma step_frame:
  assumes "step popen j w = Some w'"
  shows "length (tasks w') = length (tasks w)" and "strings w' = strings w"
    and "cmd_ref (tasks w' ! k) = cmd_ref (tasks w ! k)"
    and "ostr_ref (tasks w' ! k) = ostr_ref (tasks w ! k)"
  using assms
  by (auto simp: step_def Let_def nth_list_update split: option.splits if_splits)

lemma step_other_result:
  assumes "j \<noteq> i" and "step popen j w = Some w'"
    and "j < length (tasks w) \<Longrightarrow> ostr_ref (tasks w ! j) \<noteq> ostr_ref (tasks w ! i)"
  shows "result_of popen i w' = result_of popen i w"
  using assms
  by (auto simp: step_def Let_def result_of_def split: option.splits if_splits)

lemma wait_result:
  assumes "i < length (tasks w)"
  shows "map_option (\<lambda>w'. (state (tasks w' ! i), ostreams w' (ostr_ref (tasks w ! i))))
           (wait popen i w) =
         map_option (\<lambda>(r, ostr). (Ready r, ostr)) (result_of popen i w)"
  using assms
proof (induction popen i w rule: wait.induct)
  case (1 popen i w)
  show ?case
  proof (cases "is_Ready (state (tasks w ! i))")
    case True
    then obtain r where "state (tasks w ! i) = Ready r"
      by (cases "state (tasks w ! i)") auto
    with "1.prems" show ?thesis
      by (simp add: wait_Ready result_of_def lambda_result_def)
  next
    case False
    show ?thesis
    proof (cases "step popen i w")
      case None
      with "1.prems" False show ?thesis
        by (simp add: wait.simps [of popen i w] step_own_None)
    next
      case (Some w')
      from "1.prems" False Some have "wait popen i w = wait popen i w'"
        by (simp add: wait.simps [of popen i w])
      moreover from "1.prems" Some have "result_of popen i w' = result_of popen i w"
        by (simp add: step_own_result)
      moreover from "1.prems" False Some
      have "map_option (\<lambda>w''. (state (tasks w'' ! i), ostreams w'' (ostr_ref (tasks w' ! i))))
           (wait popen i w') =
         map_option (\<lambda>(r, ostr). (Ready r, ostr)) (result_of popen i w')"
        by (intro "1.IH") (simp_all add: step_frame(1))
      ultimately show ?thesis
        by (simp add: step_frame(4) [OF Some])
    qed
  qed
qed

lemma run_frame:
  assumes "run popen sched w = Some w'"
  shows "length (tasks w') = length (tasks w) \<and> strings w' = strings w \<and>
    cmd_ref (tasks w' ! k) = cmd_ref (tasks w ! k) \<and>
    ostr_ref (tasks w' ! k) = ostr_ref (tasks w ! k)"
  using assms
proof (induction sched arbitrary: w)
  case Nil
  then show ?case by simp
next
  case (Cons j sched)
  then obtain w1 where s: "step popen j w = Some w1" and r: "run popen sched w1 = Some w'"
    by (auto split: option.splits)
  from Cons.IH [OF r] step_frame [OF s] show ?case by simp
qed

lemma run_result:
  assumes "i < length (tasks w)"
    and "\<forall>j \<in> set sched. j \<noteq> i \<longrightarrow> j < length (tasks w) \<longrightarrow>
           ostr_ref (tasks w ! j) \<noteq> ostr_ref (tasks w ! i)"
    and "run popen sched w = Some w'"
  shows "result_of popen i w' = result_of popen i w"
  using assms
proof (induction sched arbitrary: w)
  case Nil
  then show ?case by simp
next
  case (Cons j sched)
  then obtain w1 where s: "step popen j w = Some w1" and r: "run popen sched w1 = Some w'"
    by (auto split: option.splits)
  have 1: "result_of popen i w1 = result_of popen i w"
  proof (cases "j = i")
    case True
    with Cons.prems(1) s show ?thesis by (simp add: step_own_result)
  next
    case False
    with Cons.prems(2) s show ?thesis by (intro step_other_result) auto
  qed
  from Cons.prems(1,2) have "result_of popen i w' = result_of popen i w1"
    by (intro Cons.IH r) (simp_all add: step_frame [OF s])
  with 1 show ?case by simp
qed

lemma future_get_result:
  assumes "valid f" and "shared_state f < length (tasks w)"
  shows "outcome (ostr_ref (tasks w ! shared_state f)) (future_get popen f w) =
    result_of popen (shared_state f) w"
proof (cases "wait popen (shared_state f) w")
  case None
  with wait_result [OF assms(2), of popen] assms(1) show ?thesis
    by (simp add: future_get_def outcome_def)
next
  case (Some w')
  with wait_result [OF assms(2), of popen]
  obtain r ostr where r: "result_of popen (shared_state f) w = Some (r, ostr)"
    and st: "state (tasks w' ! shared_state f) = Ready r"
    and os: "ostreams w' (ostr_ref (tasks w ! shared_state f)) = ostr"
    by (cases "result_of popen (shared_state f) w") auto
  with Some assms(1) show ?thesis
    by (simp add: future_get_def outcome_def)
qed

lemma ExecuteAsync_result:
  assumes "ExecuteAsync cmd ostr w = (f, w1)"
  shows "result_of popen (shared_state f) w1 =
    lambda_result popen (strings w cmd) NotStarted (ostreams w ostr)"
  using ExecuteAsync_world [OF assms] by (simp add: result_of_def)

subsection \<open>Schedules\<close>

text \<open>Once a thread has found that the spawn failed, or is about to, it stays so.\<close>

lemma step_spawn_failure:
  assumes "step popen j w = Some w'" and "i < length (tasks w)"
    and "strings w (cmd_ref (tasks w ! i)) = Some c" and "popen c = None"
    and "state (tasks w ! i) = NotStarted \<or>
      state (tasks w ! i) = Ready (Inl (FileSystemException ''popen() failed!''))"
  shows "state (tasks w' ! i) = NotStarted \<or>
      state (tasks w' ! i) = Ready (Inl (FileSystemException ''popen() failed!''))"
  using assms
  by (auto simp: step_def Let_def lambda_step_def nth_list_update
      split: option.splits if_splits thread_state.splits)

lemma run_spawn_failure:
  assumes "run popen sched w = Some w'" and "i < length (tasks w)"
    and "strings w (cmd_ref (tasks w ! i)) = Some c" and "popen c = None"
    and "state (tasks w ! i) = NotStarted \<or>
      state (tasks w ! i) = Ready (Inl (FileSystemException ''popen() failed!''))"
  shows "state (tasks w' ! i) = NotStarted \<or>
      state (tasks w' ! i) = Ready (Inl (FileSystemException ''popen() failed!''))"
  using assms
proof (induction sched arbitrary: w)
  case Nil
  then show ?case by simp
next
  case (Cons j sched)
  then obtain w1 where s: "step popen j w = Some w1" and r: "run popen sched w1 = Some w'"
    by (auto split: option.splits)
  note f = step_frame [OF s]
  from step_spawn_failure [OF s Cons.prems(2-5)] Cons.prems(2,3,4) show ?case
    by (intro Cons.IH [OF r]) (simp_all add: f)
qed

lemma future_get_spawn_failure:
  assumes "valid f" and "shared_state f < length (tasks w)"
    and "strings w (cmd_ref (tasks w ! shared_state f)) = Some c" and "popen c = None"
    and "state (tasks w ! shared_state f) = NotStarted \<or>
      state (tasks w ! shared_state f) = Ready (Inl (FileSystemException ''popen() failed!''))"
  shows "map_option fst (future_get popen f w) =
    Some (Inl (FileSystemException ''popen() failed!''))"
  using assms(5)
proof
  assume "state (tasks w ! shared_state f) = NotStarted"
  with assms show ?thesis by (simp add: future_get_fail)
next
  assume "state (tasks w ! shared_state f) =
    Ready (Inl (FileSystemException ''popen() failed!''))"
  with assms show ?thesis by (simp add: future_get_def wait_Ready)
qed

lemma step_spawned:
  assumes "step popen j w = Some w'" and "i < length (tasks w)"
    and "state (tasks w ! i) = NotStarted \<longrightarrow> spawned i w = 0" and "spawned i w \<le> 1"
  shows "(state (tasks w' ! i) = NotStarted \<longrightarrow> spawned i w' = 0) \<and> spawned i w' \<le> 1"
  using assms
  by (auto simp: step_def Let_def lambda_step_def nth_list_update spawned_def
      split: option.splits if_splits thread_state.splits)

lemma run_spawned:
  assumes "run popen sched w = Some w'" and "i < length (tasks w)"
    and "state (tasks w ! i) = NotStarted \<longrightarrow> spawned i w = 0" and "spawned i w \<le> 1"
  shows "(state (tasks w' ! i) = NotStarted \<longrightarrow> spawned i w' = 0) \<and> spawned i w' \<le> 1"
  using assms
proof (induction sched arbitrary: w)
  case Nil
  then show ?case by simp
next
  case (Cons j sched)
  then obtain w1 where s: "step popen j w = Some w1" and r: "run popen sched w1 = Some w'"
    by (auto split: option.splits)
  from step_spawned [OF s Cons.prems(2-4)] Cons.prems(2) show ?case
    by (intro Cons.IH [OF r]) (simp_all add: step_frame [OF s])
qed

lemma step_Ready:
  assumes "step popen j w = Some w'" and "i < length (tasks w)"
    and "state (tasks w ! i) = Ready r"
  shows "state (tasks w' ! i) = Ready r \<and> spawned i w' = spawned i w"
  using assms
  by (auto simp: step_def Let_def lambda_step_def nth_list_update spawned_def
      split: option.splits if_splits thread_state.splits)

lemma run_Ready:
  assumes "run popen sched w = Some w'" and "i < length (tasks w)"
    and "state (tasks w ! i) = Ready r"
  shows "state (tasks w' ! i) = Ready r \<and> spawned i w' = spawned i w"
  using assms
proof (induction sched arbitrary: w)
  case Nil
  then show ?case by simp
next
  case (Cons j sched)
  then obtain w1 where s: "step popen j w = Some w1" and r: "run popen sched w1 = Some w'"
    by (auto split: option.splits)
  from step_Ready [OF s Cons.prems(2,3)] Cons.prems(2)
  have "state (tasks w' ! i) = Ready r \<and> spawned i w' = spawned i w1"
    by (intro Cons.IH [OF r]) (simp_all add: step_frame [OF s])
  with step_Ready [OF s Cons.prems(2,3)] show ?case by simp
qed

text \<open>Waiting is a run of the awaited thread alone.\<close>

lemma wait_run:
  assumes "wait popen i w = Some w'"
  shows "\<exists>n. run popen (replicate n i) w = Some w'"
  using assms
proof (induction popen i w rule: wait.induct)
  case (1 popen i w)
  show ?case
  proof (cases "i < length (tasks w) \<and> \<not> is_Ready (state (tasks w ! i))")
    case False
    with "1.prems" have "w' = w" by (simp add: wait.simps [of popen i w])
    then have "run popen (replicate 0 i) w = Some w'" by simp
    then show ?thesis ..
  next
    case True
    with "1.prems" obtain w1 where s: "step popen i w = Some w1"
      and r: "wait popen i w1 = Some w'"
      by (auto simp: wait.simps [of popen i w] split: option.splits)
    from "1.IH" [OF True s r] obtain n where "run popen (replicate n i) w1 = Some w'" ..
    with s have "run popen (replicate (Suc n) i) w = Some w'" by simp
    then show ?thesis ..
  qed
qed

lemma wait_Some_Ready:
  assumes "wait popen i w = Some w'" and "i < length (tasks w)"
  shows "\<exists>r. state (tasks w' ! i) = Ready r"
  using wait_result [OF assms(2), of popen] assms(1)
  by (cases "result_of popen i w") auto

lemma wait_idem:
  assumes "wait popen i w = Some w'"
  shows "wait popen i w' = Some w'"
proof (cases "i < length (tasks w)")
  case True
  from wait_run [OF assms] obtain n where "run popen (replicate n i) w = Some w'" ..
  from run_frame [OF this, of i] True have "i < length (tasks w')" by simp
  moreover from wait_Some_Ready [OF assms True] obtain r
    where "state (tasks w' ! i) = Ready r" ..
  ultimately show ?thesis by (simp add: wait_Ready)
next
  case False
  with assms have "w' = w" by (simp add: wait.simps [of popen i w])
  with False show ?thesis by (simp add: wait_out_of_range)
qed

lemma future_get_Some:
  assumes "future_get popen f w = Some (r, f', w')"
  shows "valid f" and "f' = f\<lparr>valid := False\<rparr>" and "wait popen (shared_state f) w = Some w'"
    and "state (tasks w' ! shared_state f) = Ready r"
  using assms
  by (auto simp: future_get_def split: if_splits option.splits thread_state.splits)

lemma lambda_result_alive: "lambda_result popen (Some c) st (Some os) \<noteq> None"
  by (cases st) (simp_all add: lambda_result_def split: option.splits)

lemma step_ostreams_alive:
  assumes "step popen j w = Some w'" and "ostreams w a \<noteq> None"
  shows "ostreams w' a \<noteq> None"
  using assms
  by (auto simp: step_def Let_def lambda_step_def
      split: option.splits if_splits thread_state.splits)

lemma run_ostreams_alive:
  assumes "run popen sched w = Some w'" and "ostreams w a \<noteq> None"
  shows "ostreams w' a \<noteq> None"
  using assms
proof (induction sched arbitrary: w)
  case Nil
  then show ?case by simp
next
  case (Cons j sched)
  then obtain w1 where s: "step popen j w = Some w1" and r: "run popen sched w1 = Some w'"
    by (auto split: option.splits)
  from step_ostreams_alive [OF s Cons.prems(2)] show ?case
    by (rule Cons.IH [OF r])
qed

lemma future_get_alive:
  assumes "valid f" and "shared_state f < length (tasks w)"
    and "strings w (cmd_ref (tasks w ! shared_state f)) \<noteq> None"
    and "ostreams w (ostr_ref (tasks w ! shared_state f)) \<noteq> None"
  shows "future_get popen f w \<noteq> None"
proof -
  from assms(3,4) obtain c os
    where "strings w (cmd_ref (tasks w ! shared_state f)) = Some c"
      and "ostreams w (ostr_ref (tasks w ! shared_state f)) = Some os"
    by auto
  then have "result_of popen (shared_state f) w \<noteq> None"
    unfolding result_of_def by (simp only: lambda_result_alive not_False_eq_True)
  with future_get_result [OF assms(1,2), of popen] show ?thesis
    by (auto simp: outcome_def)
qed

lemma chunks_not_Nil:
  assumes "chunks pipe \<noteq> []"
  obtains buffer pipe' where "fgets buffer_size pipe = Some (buffer, pipe')"
    and "chunks pipe = buffer # chunks pipe'"
proof (cases "fgets buffer_size pipe")
  case None
  with assms show ?thesis by (simp add: chunks.simps [of pipe])
next
  case (Some p)
  obtain buffer pipe' where "p = (buffer, pipe')" by (cases p)
  with Some that show ?thesis by (simp add: chunks_Cons)
qed

text \<open>
  After \<open>k\<close> iterations of the read loop on a stream in good state with field width
  0, the pipe holds what follows the first \<open>k\<close> buffers and the stream has received
  these buffers, each as a C string, in order.
\<close>

lemma run_Reading_chunks:
  assumes "i < length (tasks w)" and "state (tasks w ! i) = Reading pipe"
    and "ostreams w (ostr_ref (tasks w ! i)) = Some os" and "good os" and "width os = 0"
    and "k \<le> length (chunks pipe)"
  shows "map_option (\<lambda>w'. (state (tasks w' ! i), ostreams w' (ostr_ref (tasks w ! i))))
      (run popen (replicate k i) w) =
    Some (Reading (concat (drop k (chunks pipe))),
          Some (os\<lparr>written := written os @ concat (map c_str (take k (chunks pipe)))\<rparr>))"
  using assms
proof (induction k arbitrary: w pipe os)
  case 0
  then show ?case by (simp add: chunks_concat)
next
  case (Suc k)
  from Suc.prems(6) have "chunks pipe \<noteq> []" by auto
  then obtain buffer pipe' where g: "fgets buffer_size pipe = Some (buffer, pipe')"
    and c: "chunks pipe = buffer # chunks pipe'"
    by (rule chunks_not_Nil)
  let ?os = "os\<lparr>written := written os @ c_str buffer\<rparr>"
  let ?w = "w\<lparr>ostreams := (ostreams w)(ostr_ref (tasks w ! i) \<mapsto> ?os),
            tasks := (tasks w)[i := (tasks w ! i)\<lparr>state := Reading pipe'\<rparr>]\<rparr>"
  from Suc.prems(4,5) have "insert_c_string (c_str buffer) os = ?os"
    by (rule insert_c_string_plain)
  with step_Reading_chunk [OF Suc.prems(1,2) g Suc.prems(3), of popen]
  have s: "step popen i w = Some ?w" by simp
  from Suc.prems(1,4,5,6) c
  have "map_option (\<lambda>w'. (state (tasks w' ! i), ostreams w' (ostr_ref (tasks ?w ! i))))
      (run popen (replicate k i) ?w) =
    Some (Reading (concat (drop k (chunks pipe'))),
          Some (?os\<lparr>written := written ?os @ concat (map c_str (take k (chunks pipe')))\<rparr>))"
    by (intro Suc.IH) simp_all
  with s Suc.prems(1) c show ?case by simp
qed

section \<open>Properties of the search in PATH\<close>












section \<open>The claims\<close>

text \<open>
  C1. As stated the claim fails. The loop inserts each buffer into the stream as a C
  string: on the demo host the command \<^verbatim>\<open>cat blob.bin\<close> emits the five bytes \<open>a\<close>, 0, \<open>b\<close>,
  new-line, \<open>c\<close>, and after \<^verbatim>\<open>get()\<close> has returned normally the stream holds the two
  bytes \<open>ac\<close>. The insertion is a formatted one: into a stream whose field width is
  10, the line of \<^verbatim>\<open>echo hello\<close> arrives after four fill characters.
\<close>

theorem async_output_with_nul_counterexample:
  "strings demo_world 2 = Some ''cat blob.bin'' \<and>
   demo_os ''cat blob.bin'' = Some [CHR ''a'', NUL, CHR ''b'', newline, CHR ''c''] \<and>
   ostreams demo_world 10 = Some ostringstream \<and>
   outcome 10 (future_get demo_os (fst (ExecuteAsync 2 10 demo_world))
     (snd (ExecuteAsync 2 10 demo_world))) =
     Some (Inr (), Some (ostringstream\<lparr>written := ''ac''\<rparr>)) \<and>
   ''ac'' \<noteq> [CHR ''a'', NUL, CHR ''b'', newline, CHR ''c''] \<and>
   demo_os ''echo hello'' = Some (''hello'' @ [newline]) \<and>
   ostreams demo_world 12 = Some (ostringstream\<lparr>width := 10\<rparr>) \<and>
   outcome 12 (future_get demo_os (fst (ExecuteAsync 0 12 demo_world))
     (snd (ExecuteAsync 0 12 demo_world))) =
     Some (Inr (), Some (ostringstream\<lparr>written := ''    hello'' @ [newline]\<rparr>))"
proof -
  have "outcome 10 (future_get demo_os (fst (ExecuteAsync 2 10 demo_world))
     (snd (ExecuteAsync 2 10 demo_world))) =
     Some (Inr (), Some (ostringstream\<lparr>written := ''ac''\<rparr>))"
    by code_simp
  moreover have "outcome 12 (future_get demo_os (fst (ExecuteAsync 0 12 demo_world))
     (snd (ExecuteAsync 0 12 demo_world))) =
     Some (Inr (), Some (ostringstream\<lparr>written := ''    hello'' @ [newline]\<rparr>))"
    by code_simp
  ultimately show ?thesis
    by (simp add: demo_world_def demo_os_def)
qed

text \<open>
  C1, amended. For every command that is spawned, when the stream is in good state with
  field width 0: after its \<^verbatim>\<open>popen\<close> call and \<open>k\<close> iterations of its read loop, the
  thread of \<^verbatim>\<open>ExecuteAsync\<close> has read the first \<open>k\<close> buffers of the child's output, has
  left the rest in the pipe, and has appended these buffers to the stream in reading
  order, each as a C string; \<^verbatim>\<open>get()\<close> returns normally, and the stream then holds what
  it held before followed by all the buffers, each as a C string. The buffers are
  non-empty, of at most 127 bytes each, and their concatenation is the output. A buffer
  with a zero byte is forwarded up to its first zero byte only; when the output has
  no zero byte, the stream holds what it held before followed by exactly the output.
\<close>

theorem async_forwards_chunks_as_c_strings:
  assumes "ExecuteAsync cmd ostr w = (f, w1)" and "strings w cmd = Some c"
    and "popen c = Some pipe" and "ostreams w ostr = Some os"
    and "good os" and "width os = 0"
  shows "outcome ostr (future_get popen f w1) =
      Some (Inr (), Some (os\<lparr>written := written os @ concat (map c_str (chunks pipe))\<rparr>)) \<and>
    (\<forall>k \<le> length (chunks pipe).
       map_option (\<lambda>w'. (state (tasks w' ! shared_state f), ostreams w' ostr))
         (run popen (replicate (Suc k) (shared_state f)) w1) =
       Some (Reading (concat (drop k (chunks pipe))),
             Some (os\<lparr>written := written os @ concat (map c_str (take k (chunks pipe)))\<rparr>))) \<and>
    concat (chunks pipe) = pipe \<and>
    (\<forall>b \<in> set (chunks pipe). b \<noteq> [] \<and> length b \<le> 127) \<and>
    (\<forall>b \<in> set (chunks pipe). \<forall>x y. b = x @ NUL # y \<and> NUL \<notin> set x \<longrightarrow> c_str b = x) \<and>
    (NUL \<notin> set pipe \<longrightarrow> concat (map c_str (chunks pipe)) = pipe)"
proof -
  note e = ExecuteAsync_world [OF assms(1)]
  let ?i = "shared_state f"
  have A: "outcome ostr (future_get popen f w1) =
      Some (Inr (), Some (os\<lparr>written := written os @ concat (map c_str (chunks pipe))\<rparr>))"
    using ExecuteAsync_get_ok [where popen = popen, OF assms(1-4)] assms(5,6)
    by (simp add: outcome_def forward_plain)
  let ?w = "w1\<lparr>tasks := (tasks w1)[?i := (tasks w1 ! ?i)\<lparr>state := Reading pipe\<rparr>],
            popen_calls := popen_calls w1 @ [(?i, c)]\<rparr>"
  have s: "step popen ?i w1 = Some ?w"
    using e assms(2,3) by (intro step_NotStarted_ok) simp_all
  have B: "\<forall>k \<le> length (chunks pipe).
       map_option (\<lambda>w'. (state (tasks w' ! ?i), ostreams w' ostr))
         (run popen (replicate (Suc k) ?i) w1) =
       Some (Reading (concat (drop k (chunks pipe))),
             Some (os\<lparr>written := written os @ concat (map c_str (take k (chunks pipe)))\<rparr>))"
  proof (intro allI impI)
    fix k
    assume k: "k \<le> length (chunks pipe)"
    have "map_option (\<lambda>w'. (state (tasks w' ! ?i), ostreams w' (ostr_ref (tasks ?w ! ?i))))
        (run popen (replicate k ?i) ?w) =
      Some (Reading (concat (drop k (chunks pipe))),
            Some (os\<lparr>written := written os @ concat (map c_str (take k (chunks pipe)))\<rparr>))"
      using e assms(4,5,6) k by (intro run_Reading_chunks) simp_all
    with s e show "map_option (\<lambda>w'. (state (tasks w' ! ?i), ostreams w' ostr))
         (run popen (replicate (Suc k) ?i) w1) =
       Some (Reading (concat (drop k (chunks pipe))),
             Some (os\<lparr>written := written os @ concat (map c_str (take k (chunks pipe)))\<rparr>))"
      by simp
  qed
  have C: "\<forall>b \<in> set (chunks pipe). b \<noteq> [] \<and> length b \<le> 127"
    using chunks_ok by blast
  have D: "\<forall>b \<in> set (chunks pipe). \<forall>x y. b = x @ NUL # y \<and> NUL \<notin> set x \<longrightarrow> c_str b = x"
    by (auto simp: c_str_NUL)
  have E: "NUL \<notin> set pipe \<longrightarrow> concat (map c_str (chunks pipe)) = pipe"
    by (simp add: chunks_nul_free)
  from A B C D E show ?thesis
    by (simp only: chunks_concat simp_thms)
qed

theorem async_forwards_chunks_as_c_strings_witness:
  "strings demo_world 2 = Some ''cat blob.bin'' \<and>
   demo_os ''cat blob.bin'' = Some [CHR ''a'', NUL, CHR ''b'', newline, CHR ''c''] \<and>
   ostreams demo_world 10 = Some ostringstream \<and>
   good ostringstream \<and> width ostringstream = 0 \<and>
   chunks [CHR ''a'', NUL, CHR ''b'', newline, CHR ''c''] =
     [[CHR ''a'', NUL, CHR ''b'', newline], ''c''] \<and>
   outcome 10 (future_get demo_os (fst (ExecuteAsync 2 10 demo_world))
     (snd (ExecuteAsync 2 10 demo_world))) =
     Some (Inr (), Some (ostringstream\<lparr>written := ''ac''\<rparr>)) \<and>
   map_option (\<lambda>w'. (state (tasks w' ! 0), ostreams w' 10))
     (run demo_os (replicate 2 0) (snd (ExecuteAsync 2 10 demo_world))) =
     Some (Reading ''c'', Some (ostringstream\<lparr>written := ''a''\<rparr>))"
proof -
  let ?f = "fst (ExecuteAsync 2 10 demo_world)"
  let ?w1 = "snd (ExecuteAsync 2 10 demo_world)"
  let ?pipe = "[CHR ''a'', NUL, CHR ''b'', newline, CHR ''c'']"
  have h1: "ExecuteAsync 2 10 demo_world = (?f, ?w1)"
    by simp
  have h2: "strings demo_world 2 = Some ''cat blob.bin''"
    by (simp add: demo_world_def)
  have h3: "demo_os ''cat blob.bin'' = Some ?pipe"
    by (simp add: demo_os_def)
  have h4: "ostreams demo_world 10 = Some ostringstream"
    by (simp add: demo_world_def)
  have h5: "good ostringstream" and h6: "width ostringstream = 0"
    by (simp_all add: ostringstream_def)
  have i: "shared_state ?f = 0"
    by (simp add: ExecuteAsync_def demo_world_def)
  have c: "chunks ?pipe = [[CHR ''a'', NUL, CHR ''b'', newline], ''c'']"
    by code_simp
  have cs: "c_str [CHR ''a'', NUL, CHR ''b'', newline] = ''a''" "c_str ''c'' = ''c''"
    by code_simp+
  have w: "written ostringstream = []"
    by (simp add: ostringstream_def)
  note t = async_forwards_chunks_as_c_strings [where popen = demo_os,
      OF h1 h2 h3 h4 h5 h6, unfolded i c]
  from t have A: "outcome 10 (future_get demo_os ?f ?w1) =
     Some (Inr (), Some (ostringstream\<lparr>written := ''ac''\<rparr>))"
    by (simp add: cs w)
  from t have "\<forall>k \<le> length [[CHR ''a'', NUL, CHR ''b'', newline], ''c''].
       map_option (\<lambda>w'. (state (tasks w' ! 0), ostreams w' 10))
         (run demo_os (replicate (Suc k) 0) ?w1) =
       Some (Reading (concat (drop k [[CHR ''a'', NUL, CHR ''b'', newline], ''c''])),
             Some (ostringstream\<lparr>written := written ostringstream @
               concat (map c_str (take k [[CHR ''a'', NUL, CHR ''b'', newline], ''c'']))\<rparr>))"
    by (elim conjE)
  then have "map_option (\<lambda>w'. (state (tasks w' ! 0), ostreams w' 10))
         (run demo_os (replicate (Suc 1) 0) ?w1) =
       Some (Reading (concat (drop 1 [[CHR ''a'', NUL, CHR ''b'', newline], ''c''])),
             Some (ostringstream\<lparr>written := written ostringstream @
               concat (map c_str (take 1 [[CHR ''a'', NUL, CHR ''b'', newline], ''c'']))\<rparr>))"
    by (elim allE [where x = 1]) simp
  then have B: "map_option (\<lambda>w'. (state (tasks w' ! 0), ostreams w' 10))
     (run demo_os (replicate 2 0) ?w1) =
     Some (Reading ''c'', Some (ostringstream\<lparr>written := ''a''\<rparr>))"
    by (simp add: cs w numeral_2_eq_2)
  show ?thesis
    by (intro conjI h2 h3 h4 h5 h6 c A B)
qed

text \<open>
  C2. When the spawn primitive returns a null handle for the command, the call of
  \<^verbatim>\<open>ExecuteAsync\<close> itself returns a valid future whose thread has not entered the
  lambda, and has made no \<^verbatim>\<open>popen\<close> call; whatever the threads do before the caller
  awaits, \<^verbatim>\<open>get()\<close> on the future throws \<^verbatim>\<open>FileSystemException("popen() failed!")\<close>.
\<close>

theorem spawn_failure_raised_at_get:
  assumes "ExecuteAsync cmd ostr w = (f, w1)" and "strings w cmd = Some c"
    and "popen c = None" and "run popen sched w1 = Some w2"
  shows "valid f \<and> state (tasks w1 ! shared_state f) = NotStarted \<and>
    popen_calls w1 = popen_calls w \<and>
    map_option fst (future_get popen f w2) =
      Some (Inl (FileSystemException ''popen() failed!''))"
proof -
  note e = ExecuteAsync_world [OF assms(1)]
  note f = run_frame [OF assms(4)]
  have "state (tasks w2 ! shared_state f) = NotStarted \<or>
      state (tasks w2 ! shared_state f) = Ready (Inl (FileSystemException ''popen() failed!''))"
    using e assms(2,3) by (intro run_spawn_failure [OF assms(4)]) simp_all
  then have "map_option fst (future_get popen f w2) =
      Some (Inl (FileSystemException ''popen() failed!''))"
    using e assms(2,3) f [of "shared_state f"] by (intro future_get_spawn_failure) simp_all
  with e show ?thesis by simp
qed

theorem spawn_failure_raised_at_get_witness:
  "strings demo_world 1 = Some ''__not_a_real_binary__'' \<and>
   demo_os ''__not_a_real_binary__'' = None \<and>
   valid (fst (ExecuteAsync 1 10 demo_world)) \<and>
   state (tasks (snd (ExecuteAsync 1 10 demo_world)) !
     shared_state (fst (ExecuteAsync 1 10 demo_world))) = NotStarted \<and>
   popen_calls (snd (ExecuteAsync 1 10 demo_world)) = popen_calls demo_world \<and>
   map_option fst (future_get demo_os (fst (ExecuteAsync 1 10 demo_world))
     (the (run demo_os [0, 0] (snd (ExecuteAsync 1 10 demo_world))))) =
     Some (Inl (FileSystemException ''popen() failed!''))"
proof -
  have h1: "ExecuteAsync 1 10 demo_world =
     (fst (ExecuteAsync 1 10 demo_world), snd (ExecuteAsync 1 10 demo_world))"
    by simp
  have h2: "strings demo_world 1 = Some ''__not_a_real_binary__''"
    by (simp add: demo_world_def)
  have h3: "demo_os ''__not_a_real_binary__'' = None"
    by (simp add: demo_os_def)
  have "run demo_os [0, 0] (snd (ExecuteAsync 1 10 demo_world)) \<noteq> None"
    by (simp add: step_def lambda_step_def ExecuteAsync_def demo_world_def demo_os_def Let_def)
  then have h4: "run demo_os [0, 0] (snd (ExecuteAsync 1 10 demo_world)) =
      Some (the (run demo_os [0, 0] (snd (ExecuteAsync 1 10 demo_world))))"
    by simp
  from spawn_failure_raised_at_get [where popen = demo_os, OF h1 h2 h3 h4] h2 h3
  show ?thesis
    by simp
qed

text \<open>
  C3. When the spawn fails nothing is written: \<^verbatim>\<open>get()\<close> throws the spawn error and
  every stream holds what it held before the call, and so it does after any number of
  transitions of the thread.
\<close>

theorem spawn_failure_writes_nothing:
  assumes "ExecuteAsync cmd ostr w = (f, w1)" and "strings w cmd = Some c"
    and "popen c = None"
  shows "map_option (\<lambda>(r, f', w2). (r, ostreams w2)) (future_get popen f w1) =
      Some (Inl (FileSystemException ''popen() failed!''), ostreams w) \<and>
    map_option ostreams (run popen (replicate n (shared_state f)) w1) = Some (ostreams w)"
proof -
  note e = ExecuteAsync_world [OF assms(1)]
  let ?i = "shared_state f"
  let ?w2 = "w1\<lparr>tasks := (tasks w1)[?i := (tasks w1 ! ?i)
                 \<lparr>state := Ready (Inl (FileSystemException ''popen() failed!''))\<rparr>],
            popen_calls := popen_calls w1 @ [(?i, c)]\<rparr>"
  have s: "step popen ?i w1 = Some ?w2"
    using e assms(2,3) by (intro step_NotStarted_fail) simp_all
  have r: "step popen ?i ?w2 = Some ?w2"
    using e by (simp add: step_def lambda_step_def Let_def)
  have rn: "run popen (replicate k ?i) ?w2 = Some ?w2" for k
    by (induction k) (simp_all add: r)
  have "map_option ostreams (run popen (replicate n ?i) w1) = Some (ostreams w)"
  proof (cases n)
    case 0
    with e show ?thesis by simp
  next
    case (Suc k)
    with s rn [of k] e show ?thesis by simp
  qed
  moreover have "map_option (\<lambda>(r, f', w2). (r, ostreams w2)) (future_get popen f w1) =
      Some (Inl (FileSystemException ''popen() failed!''), ostreams w)"
    using ExecuteAsync_get_fail [where popen = popen, OF assms] e by simp
  ultimately show ?thesis by simp
qed

theorem spawn_failure_writes_nothing_witness:
  "strings demo_world 1 = Some ''__not_a_real_binary__'' \<and>
   demo_os ''__not_a_real_binary__'' = None \<and>
   map_option (\<lambda>(r, f', w2). (r, ostreams w2 10, ostreams w2 11))
     (future_get demo_os (fst (ExecuteAsync 1 10 demo_world))
        (snd (ExecuteAsync 1 10 demo_world))) =
     Some (Inl (FileSystemException ''popen() failed!''), Some ostringstream, Some ostringstream) \<and>
   map_option (\<lambda>w'. ostreams w' 10)
     (run demo_os (replicate 3 (shared_state (fst (ExecuteAsync 1 10 demo_world))))
        (snd (ExecuteAsync 1 10 demo_world))) = Some (Some ostringstream)"
proof -
  have h1: "ExecuteAsync 1 10 demo_world =
     (fst (ExecuteAsync 1 10 demo_world), snd (ExecuteAsync 1 10 demo_world))"
    by simp
  have h2: "strings demo_world 1 = Some ''__not_a_real_binary__''"
    by (simp add: demo_world_def)
  have h3: "demo_os ''__not_a_real_binary__'' = None"
    by (simp add: demo_os_def)
  have o: "ostreams demo_world 10 = Some ostringstream"
    "ostreams demo_world 11 = Some ostringstream"
    by (simp_all add: demo_world_def)
  from spawn_failure_writes_nothing [where popen = demo_os and n = 3, OF h1 h2 h3] h2 h3 o
  show ?thesis
    by (auto simp: map_option_case split: option.splits)
qed

text \<open>
  C4. As stated the claim fails in its last part: \<^verbatim>\<open>get()\<close> releases the shared state,
  and calling it again on the same future is undefined. On the demo host the first
  \<^verbatim>\<open>get()\<close> on the future of \<^verbatim>\<open>echo hello\<close> returns normally and leaves the future not
  valid; the second has no outcome.
\<close>

theorem second_get_counterexample:
  "map_option fst (future_get demo_os (fst (ExecuteAsync 0 10 demo_world))
     (snd (ExecuteAsync 0 10 demo_world))) = Some (Inr ()) \<and>
   map_option (valid \<circ> fst \<circ> snd) (future_get demo_os (fst (ExecuteAsync 0 10 demo_world))
     (snd (ExecuteAsync 0 10 demo_world))) = Some False \<and>
   outcome 10 (future_get demo_os
     (fst (snd (the (future_get demo_os (fst (ExecuteAsync 0 10 demo_world))
        (snd (ExecuteAsync 0 10 demo_world))))))
     (snd (snd (the (future_get demo_os (fst (ExecuteAsync 0 10 demo_world))
        (snd (ExecuteAsync 0 10 demo_world))))))) = None"
  by code_simp

text \<open>
  C4, amended. The thread of a future returned by \<^verbatim>\<open>ExecuteAsync\<close> calls \<^verbatim>\<open>popen\<close> at
  most once, under every schedule. Once its shared state holds a result (a normal
  return or an exception, one value), that result stays and the thread spawns nothing
  more, whatever runs afterwards. \<^verbatim>\<open>get()\<close> hands the result over once: it leaves the
  future not valid, and a second \<^verbatim>\<open>get()\<close> on it is undefined. \<^verbatim>\<open>wait()\<close> can be repeated:
  a second \<^verbatim>\<open>wait()\<close> changes nothing, and a \<^verbatim>\<open>get()\<close> after it delivers the result
  without any further transition of the thread. While the caller's string and stream
  are alive, \<^verbatim>\<open>get()\<close> does deliver a result.
\<close>

theorem future_resolves_once:
  assumes "ExecuteAsync cmd ostr w = (f, w1)"
    and "\<forall>p \<in> set (popen_calls w). fst p < length (tasks w)"
    and "run popen sched w1 = Some w2"
  shows "spawned (shared_state f) w2 \<le> 1 \<and>
    (\<forall>r sched' w3. state (tasks w2 ! shared_state f) = Ready r \<and>
        run popen sched' w2 = Some w3 \<longrightarrow>
        state (tasks w3 ! shared_state f) = Ready r \<and>
        spawned (shared_state f) w3 = spawned (shared_state f) w2) \<and>
    (\<forall>r f' w3. future_get popen f w2 = Some (r, f', w3) \<longrightarrow>
        state (tasks w3 ! shared_state f) = Ready r \<and> spawned (shared_state f) w3 \<le> 1 \<and>
        \<not> valid f' \<and> future_get popen f' w3 = None) \<and>
    (\<forall>w3. future_wait popen f w2 = Some w3 \<longrightarrow>
        future_wait popen f w3 = Some w3 \<and>
        (\<exists>r. future_get popen f w3 = Some (r, f\<lparr>valid := False\<rparr>, w3))) \<and>
    (strings w cmd \<noteq> None \<and> ostreams w ostr \<noteq> None \<longrightarrow> future_get popen f w2 \<noteq> None)"
proof -
  note e = ExecuteAsync_world [OF assms(1)]
  let ?i = "shared_state f"
  have i1: "?i < length (tasks w1)" using e by simp
  have "spawned ?i w1 = 0"
    using assms(2) e by (auto simp: spawned_def filter_empty_conv)
  with i1 have inv: "(state (tasks w2 ! ?i) = NotStarted \<longrightarrow> spawned ?i w2 = 0) \<and>
      spawned ?i w2 \<le> 1"
    by (intro run_spawned [OF assms(3)]) simp_all
  have i2: "?i < length (tasks w2)"
    using run_frame [OF assms(3), of ?i] i1 by simp
  have A: "spawned ?i w2 \<le> 1" using inv by simp
  have B: "\<forall>r sched' w3. state (tasks w2 ! ?i) = Ready r \<and> run popen sched' w2 = Some w3 \<longrightarrow>
        state (tasks w3 ! ?i) = Ready r \<and> spawned ?i w3 = spawned ?i w2"
    using i2 by (auto dest: run_Ready)
  have C: "\<forall>r f' w3. future_get popen f w2 = Some (r, f', w3) \<longrightarrow>
        state (tasks w3 ! ?i) = Ready r \<and> spawned ?i w3 \<le> 1 \<and>
        \<not> valid f' \<and> future_get popen f' w3 = None"
  proof (intro allI impI)
    fix r f' w3
    assume g: "future_get popen f w2 = Some (r, f', w3)"
    note s = future_get_Some [OF g]
    from wait_run [OF s(3)] obtain n where "run popen (replicate n ?i) w2 = Some w3" ..
    from run_spawned [OF this i2] inv have "spawned ?i w3 \<le> 1" by simp
    with s show "state (tasks w3 ! ?i) = Ready r \<and> spawned ?i w3 \<le> 1 \<and>
        \<not> valid f' \<and> future_get popen f' w3 = None"
      by (simp add: future_get_def)
  qed
  have D: "\<forall>w3. future_wait popen f w2 = Some w3 \<longrightarrow>
        future_wait popen f w3 = Some w3 \<and>
        (\<exists>r. future_get popen f w3 = Some (r, f\<lparr>valid := False\<rparr>, w3))"
  proof (intro allI impI)
    fix w3
    assume "future_wait popen f w2 = Some w3"
    with e have wt: "wait popen ?i w2 = Some w3"
      by (simp add: future_wait_def)
    from wait_Some_Ready [OF wt i2] obtain r where "state (tasks w3 ! ?i) = Ready r" ..
    with wait_idem [OF wt] e
    show "future_wait popen f w3 = Some w3 \<and>
        (\<exists>r. future_get popen f w3 = Some (r, f\<lparr>valid := False\<rparr>, w3))"
      by (simp add: future_wait_def future_get_def)
  qed
  have E: "strings w cmd \<noteq> None \<and> ostreams w ostr \<noteq> None \<longrightarrow>
      future_get popen f w2 \<noteq> None"
  proof (intro impI, elim conjE)
    assume a: "strings w cmd \<noteq> None" and b: "ostreams w ostr \<noteq> None"
    note fr = run_frame [OF assms(3), of ?i]
    from b e have "ostreams w1 ostr \<noteq> None" by simp
    from run_ostreams_alive [OF assms(3) this] a fr e
    show "future_get popen f w2 \<noteq> None"
      by (intro future_get_alive i2) simp_all
  qed
  from A B C D E show ?thesis by blast
qed

theorem future_resolves_once_witness:
  "list_all (\<lambda>p. fst p < length (tasks demo_world)) (popen_calls demo_world) \<and>
   run demo_os [0] (snd (ExecuteAsync 0 10 demo_world)) \<noteq> None \<and>
   spawned 0 (the (run demo_os [0] (snd (ExecuteAsync 0 10 demo_world)))) \<le> 1 \<and>
   (case future_get demo_os (fst (ExecuteAsync 0 10 demo_world))
       (the (run demo_os [0] (snd (ExecuteAsync 0 10 demo_world)))) of
      None \<Rightarrow> False
    | Some (r, f', w3) \<Rightarrow>
        r = Inr () \<and> state (tasks w3 ! 0) = Ready r \<and> spawned 0 w3 \<le> 1 \<and>
        \<not> valid f' \<and> future_get demo_os f' w3 = None)"
proof -
  let ?f = "fst (ExecuteAsync 0 10 demo_world)"
  let ?w1 = "snd (ExecuteAsync 0 10 demo_world)"
  let ?w2 = "the (run demo_os [0] ?w1)"
  have h1: "ExecuteAsync 0 10 demo_world = (?f, ?w1)"
    by simp
  have h2: "\<forall>p \<in> set (popen_calls demo_world). fst p < length (tasks demo_world)"
    by (simp add: demo_world_def)
  have n: "run demo_os [0] ?w1 \<noteq> None"
    by (simp add: step_def lambda_step_def ExecuteAsync_def demo_world_def demo_os_def Let_def)
  then have h3: "run demo_os [0] ?w1 = Some ?w2"
    by simp
  have i: "shared_state ?f = 0"
    by (simp add: ExecuteAsync_def demo_world_def)
  note t = future_resolves_once [where popen = demo_os, OF h1 h2 h3, unfolded i]
  have "map_option fst (future_get demo_os ?f ?w2) = Some (Inr ())"
    by code_simp
  then obtain f' w3 where g: "future_get demo_os ?f ?w2 = Some (Inr (), f', w3)"
    by auto
  from t g have c: "state (tasks w3 ! 0) = Ready (Inr ()) \<and> spawned 0 w3 \<le> 1 \<and>
        \<not> valid f' \<and> future_get demo_os f' w3 = None"
    by blast
  have l: "list_all (\<lambda>p. fst p < length (tasks demo_world)) (popen_calls demo_world)"
    by (simp add: demo_world_def)
  from t have A: "spawned 0 ?w2 \<le> 1"
    by (elim conjE)
  have C: "case future_get demo_os ?f ?w2 of
      None \<Rightarrow> False
    | Some (r, f', w3) \<Rightarrow>
        r = Inr () \<and> state (tasks w3 ! 0) = Ready r \<and> spawned 0 w3 \<le> 1 \<and>
        \<not> valid f' \<and> future_get demo_os f' w3 = None"
    unfolding g using c by simp
  show ?thesis
    by (intro conjI l n A C)
qed

text \<open>
  C5. The claim states what the caller of \<^verbatim>\<open>ExecuteAsync\<close> relies on, and the code does
  not do it: the lambda captures \<^verbatim>\<open>cmd\<close> by reference, so no copy of the command is
  made and the thread reads the caller's string when it runs. On the demo host,
  awaiting the call for the string at address 0 (\<^verbatim>\<open>echo hello\<close>) yields the line when
  the string stays alive; when the string is a temporary, whose lifetime ends once
  \<^verbatim>\<open>ExecuteAsync\<close> has returned, the thread that starts afterwards reads through a
  dangling reference and the program has no defined outcome.
\<close>

theorem command_read_through_dangling_reference:
  "strings demo_world 0 = Some ''echo hello'' \<and>
   outcome 10 (future_get demo_os (fst (ExecuteAsync 0 10 demo_world))
     (snd (ExecuteAsync 0 10 demo_world))) =
     Some (Inr (), Some (ostringstream\<lparr>written := ''hello'' @ [newline]\<rparr>)) \<and>
   strings (destroy 0 (snd (ExecuteAsync 0 10 demo_world))) 0 = None \<and>
   outcome 10 (future_get demo_os (fst (ExecuteAsync 0 10 demo_world))
     (destroy 0 (snd (ExecuteAsync 0 10 demo_world)))) = None"
proof -
  have "outcome 10 (future_get demo_os (fst (ExecuteAsync 0 10 demo_world))
     (snd (ExecuteAsync 0 10 demo_world))) =
     Some (Inr (), Some (ostringstream\<lparr>written := ''hello'' @ [newline]\<rparr>))"
    by code_simp
  moreover have "outcome 10 (future_get demo_os (fst (ExecuteAsync 0 10 demo_world))
     (destroy 0 (snd (ExecuteAsync 0 10 demo_world)))) = None"
    by code_simp
  ultimately show ?thesis
    by (simp add: demo_world_def destroy_def ExecuteAsync_def)
qed

text \<open>
  C6. Two \<^verbatim>\<open>ExecuteAsync\<close> calls with distinct streams are independent. Whatever the
  commands of the two calls are, and however the scheduler interleaves the transitions
  of their two threads, what awaiting one call yields (the result of \<^verbatim>\<open>get()\<close> and the
  content of that call's stream) is what the call yields when it is made and awaited
  alone. (The host gives each child an output that depends on its own command line
  only.)
\<close>

theorem async_calls_independent:
  assumes "ExecuteAsync ca oa w = (fa, w1)" and "ExecuteAsync cb ob w1 = (fb, w2)"
    and "oa \<noteq> ob"
    and "set sched \<subseteq> {shared_state fa, shared_state fb}"
    and "run popen sched w2 = Some w3"
  shows "outcome oa (future_get popen fa w3) = outcome oa (future_get popen fa w1) \<and>
    outcome ob (future_get popen fb w3) =
      outcome ob (future_get popen (fst (ExecuteAsync cb ob w)) (snd (ExecuteAsync cb ob w)))"
proof -
  note a = ExecuteAsync_world [OF assms(1)]
  note b = ExecuteAsync_world [OF assms(2)]
  let ?a = "shared_state fa" and ?b = "shared_state fb"
  have ab: "?a \<noteq> ?b" and la: "?a < length (tasks w2)" and lb: "?b < length (tasks w2)"
    using a b by simp_all
  have ta: "tasks w2 ! ?a = \<lparr>cmd_ref = ca, ostr_ref = oa, state = NotStarted\<rparr>"
    and tb: "tasks w2 ! ?b = \<lparr>cmd_ref = cb, ostr_ref = ob, state = NotStarted\<rparr>"
    using a b by (simp_all add: nth_append)
  note f = run_frame [OF assms(5)]
  have ra: "result_of popen ?a w3 = result_of popen ?a w2"
    using la assms(3,4) ta tb by (intro run_result [OF _ _ assms(5)]) auto
  have rb: "result_of popen ?b w3 = result_of popen ?b w2"
    using lb assms(3,4) ta tb by (intro run_result [OF _ _ assms(5)]) auto
  have "outcome oa (future_get popen fa w3) = result_of popen ?a w3"
    using future_get_result [of fa w3 popen] a(2) la f [of ?a] ta by simp
  also have "\<dots> = lambda_result popen (strings w ca) NotStarted (ostreams w oa)"
    using ra ta a b by (simp add: result_of_def)
  also have "\<dots> = outcome oa (future_get popen fa w1)"
    using future_get_result [of fa w1 popen] a by (simp add: result_of_def)
  finally have A: "outcome oa (future_get popen fa w3) = outcome oa (future_get popen fa w1)" .
  obtain fb0 w1' where e: "ExecuteAsync cb ob w = (fb0, w1')"
    by (cases "ExecuteAsync cb ob w")
  note b0 = ExecuteAsync_world [OF e]
  have "outcome ob (future_get popen fb w3) = result_of popen ?b w3"
    using future_get_result [of fb w3 popen] b(2) lb f [of ?b] tb by simp
  also have "\<dots> = lambda_result popen (strings w cb) NotStarted (ostreams w ob)"
    using rb tb a b by (simp add: result_of_def)
  also have "\<dots> = outcome ob (future_get popen fb0 w1')"
    using future_get_result [of fb0 w1' popen] b0 by (simp add: result_of_def)
  finally show ?thesis
    using A e by simp
qed

theorem async_calls_independent_witness:
  "outcome 10 (future_get demo_os \<lparr>shared_state = 0, valid = True\<rparr>
      (the (run demo_os [1, 0, 0, 1, 0]
         (snd (ExecuteAsync 1 11 (snd (ExecuteAsync 0 10 demo_world))))))) =
     Some (Inr (), Some (ostringstream\<lparr>written := ''hello'' @ [newline]\<rparr>)) \<and>
   outcome 11 (future_get demo_os \<lparr>shared_state = 1, valid = True\<rparr>
      (the (run demo_os [1, 0, 0, 1, 0]
         (snd (ExecuteAsync 1 11 (snd (ExecuteAsync 0 10 demo_world))))))) =
     Some (Inl (FileSystemException ''popen() failed!''), Some ostringstream)"
proof -
  let ?w1 = "snd (ExecuteAsync 0 10 demo_world)"
  let ?w2 = "snd (ExecuteAsync 1 11 ?w1)"
  let ?fa = "\<lparr>shared_state = 0, valid = True\<rparr>"
  let ?fb = "\<lparr>shared_state = 1, valid = True\<rparr>"
  have h1: "ExecuteAsync 0 10 demo_world = (?fa, ?w1)"
    by (simp add: ExecuteAsync_def demo_world_def)
  have h2: "ExecuteAsync 1 11 ?w1 = (?fb, ?w2)"
    by (simp add: ExecuteAsync_def demo_world_def)
  have h3: "(10::nat) \<noteq> 11"
    by simp
  have h4: "set [1, 0, 0, 1, 0] \<subseteq> {shared_state ?fa, shared_state ?fb}"
    by simp
  have "run demo_os [1, 0, 0, 1, 0] ?w2 \<noteq> None"
    by (simp add: step_def lambda_step_def ExecuteAsync_def demo_world_def demo_os_def
        fgets_def buffer_size_def Let_def eval_nat_numeral newline_def c_str_def NUL_def)
  then have h5: "run demo_os [1, 0, 0, 1, 0] ?w2 =
      Some (the (run demo_os [1, 0, 0, 1, 0] ?w2))"
    by simp
  have a: "outcome 10 (future_get demo_os ?fa ?w1) = Some (Inr (), Some (ostringstream\<lparr>written := ''hello'' @ [newline]\<rparr>))"
    by code_simp
  have b: "outcome 11 (future_get demo_os (fst (ExecuteAsync 1 11 demo_world))
      (snd (ExecuteAsync 1 11 demo_world))) =
      Some (Inl (FileSystemException ''popen() failed!''), Some ostringstream)"
    by code_simp
  from async_calls_independent [OF h1 h2 h3 h4 h5] a b show ?thesis
    by simp
qed




text \<open>
  C8. In the read loop of \<^verbatim>\<open>ExecuteAsync\<close>, an iteration whose \<^verbatim>\<open>fgets\<close> call succeeds
  inserts into the stream the buffer read as a C string (on a stream in good state with
  field width 0: appends it) and leaves the rest of the child's output in the pipe.
  The buffer is a non-empty prefix of the output of at most 127 bytes; a new-line can
  only be its last byte, and it is its last byte when the read stopped before 127
  bytes with output left. What is forwarded is the part of
  the buffer before its first zero byte: the bytes that follow a zero byte in the
  buffer are dropped.
\<close>

theorem read_loop_forwards_c_string:
  assumes "i < length (tasks w)" and "state (tasks w ! i) = Reading pipe"
    and "fgets buffer_size pipe = Some (buffer, pipe')"
    and "ostreams w (ostr_ref (tasks w ! i)) = Some os"
  shows "map_option (\<lambda>w'. (state (tasks w' ! i), ostreams w' (ostr_ref (tasks w ! i))))
      (step popen i w) = Some (Reading pipe', Some (insert_c_string (c_str buffer) os)) \<and>
    (good os \<and> width os = 0 \<longrightarrow>
       insert_c_string (c_str buffer) os = os\<lparr>written := written os @ c_str buffer\<rparr>) \<and>
    buffer @ pipe' = pipe \<and> buffer \<noteq> [] \<and> length buffer \<le> 127 \<and>
    newline \<notin> set (butlast buffer) \<and>
    (length buffer < 127 \<and> pipe' \<noteq> [] \<longrightarrow> last buffer = newline) \<and>
    c_str buffer = takeWhile (\<lambda>c. c \<noteq> NUL) buffer \<and>
    (\<forall>a b. buffer = a @ NUL # b \<and> NUL \<notin> set a \<longrightarrow> c_str buffer = a)"
proof -
  have "map_option (\<lambda>w'. (state (tasks w' ! i), ostreams w' (ostr_ref (tasks w ! i))))
      (step popen i w) = Some (Reading pipe', Some (insert_c_string (c_str buffer) os))"
    using assms by (simp add: step_Reading_chunk)
  moreover have "good os \<and> width os = 0 \<longrightarrow>
       insert_c_string (c_str buffer) os = os\<lparr>written := written os @ c_str buffer\<rparr>"
    by (simp add: insert_c_string_plain)
  moreover note fgets_Some [OF assms(3)]
  moreover have "\<forall>a b. buffer = a @ NUL # b \<and> NUL \<notin> set a \<longrightarrow> c_str buffer = a"
    by (auto simp: c_str_NUL)
  ultimately show ?thesis
    unfolding c_str_def by blast
qed

theorem read_loop_forwards_c_string_witness:
  "fgets buffer_size [CHR ''a'', NUL, CHR ''b'', newline, CHR ''c''] =
     Some ([CHR ''a'', NUL, CHR ''b'', newline], ''c'') \<and>
   map_option (\<lambda>w'. (state (tasks w' ! 0), ostreams w' 10))
     (step demo_os 0
        (demo_world\<lparr>tasks := [\<lparr>cmd_ref = 2, ostr_ref = 10,
           state = Reading [CHR ''a'', NUL, CHR ''b'', newline, CHR ''c'']\<rparr>]\<rparr>)) =
     Some (Reading ''c'', Some (ostringstream\<lparr>written := ''a''\<rparr>)) \<and>
   c_str [CHR ''a'', NUL, CHR ''b'', newline] = ''a''"
proof -
  let ?w = "demo_world\<lparr>tasks := [\<lparr>cmd_ref = 2, ostr_ref = 10,
           state = Reading [CHR ''a'', NUL, CHR ''b'', newline, CHR ''c'']\<rparr>]\<rparr>"
  have h1: "0 < length (tasks ?w)"
    by simp
  have h2: "state (tasks ?w ! 0) = Reading [CHR ''a'', NUL, CHR ''b'', newline, CHR ''c'']"
    by simp
  have h3: "fgets buffer_size [CHR ''a'', NUL, CHR ''b'', newline, CHR ''c''] =
     Some ([CHR ''a'', NUL, CHR ''b'', newline], ''c'')"
    by code_simp
  have h4: "ostreams ?w (ostr_ref (tasks ?w ! 0)) = Some ostringstream"
    by (simp add: demo_world_def)
  have c: "c_str [CHR ''a'', NUL, CHR ''b'', newline] = ''a''"
    by code_simp
  note t = read_loop_forwards_c_string [where popen = demo_os, OF h1 h2 h3 h4]
  from t have "map_option (\<lambda>w'. (state (tasks w' ! 0), ostreams w' (ostr_ref (tasks ?w ! 0))))
      (step demo_os 0 ?w) =
      Some (Reading ''c'',
        Some (insert_c_string (c_str [CHR ''a'', NUL, CHR ''b'', newline]) ostringstream))"
    by (elim conjE)
  moreover have "insert_c_string ''a'' ostringstream = ostringstream\<lparr>written := ''a''\<rparr>"
    by (simp add: insert_c_string_def ostringstream_def)
  ultimately have s: "map_option (\<lambda>w'. (state (tasks w' ! 0), ostreams w' 10))
      (step demo_os 0 ?w) = Some (Reading ''c'', Some (ostringstream\<lparr>written := ''a''\<rparr>))"
    by (simp add: c)
  show ?thesis
    by (intro conjI h3 s c)
qed

text \<open>
  C9. As stated the claim fails: \<^verbatim>\<open>ExecuteSync\<close> appends each buffer to a string, and
  \<^verbatim>\<open>ExecuteAsync\<close> inserts it into a stream with a formatted insertion. On the demo
  host \<^verbatim>\<open>ExecuteSync\<close> returns the line of \<^verbatim>\<open>echo hello\<close>; \<^verbatim>\<open>ExecuteAsync\<close> writes four
  fill characters before the line into a stream whose field width is 10, and writes
  nothing into a stream that is not in good state.
\<close>

theorem sync_async_differ_counterexample:
  "ExecuteSync demo_os ''echo hello'' = Inr (''hello'' @ [newline]) \<and>
   strings demo_world 0 = Some ''echo hello'' \<and>
   ostreams demo_world 12 = Some (ostringstream\<lparr>width := 10\<rparr>) \<and>
   outcome 12 (future_get demo_os (fst (ExecuteAsync 0 12 demo_world))
     (snd (ExecuteAsync 0 12 demo_world))) =
     Some (Inr (), Some (ostringstream\<lparr>written := ''    hello'' @ [newline]\<rparr>)) \<and>
   ostreams demo_world 13 = Some (ostringstream\<lparr>good := False\<rparr>) \<and>
   outcome 13 (future_get demo_os (fst (ExecuteAsync 0 13 demo_world))
     (snd (ExecuteAsync 0 13 demo_world))) =
     Some (Inr (), Some (ostringstream\<lparr>good := False\<rparr>))"
proof -
  have "ExecuteSync demo_os ''echo hello'' = Inr (''hello'' @ [newline])"
    by code_simp
  moreover have "outcome 12 (future_get demo_os (fst (ExecuteAsync 0 12 demo_world))
     (snd (ExecuteAsync 0 12 demo_world))) =
     Some (Inr (), Some (ostringstream\<lparr>written := ''    hello'' @ [newline]\<rparr>))"
    by code_simp
  moreover have "outcome 13 (future_get demo_os (fst (ExecuteAsync 0 13 demo_world))
     (snd (ExecuteAsync 0 13 demo_world))) =
     Some (Inr (), Some (ostringstream\<lparr>good := False\<rparr>))"
    by code_simp
  ultimately show ?thesis
    by (simp add: demo_world_def)
qed

text \<open>
  C9, amended. \<^verbatim>\<open>ExecuteSync\<close> and \<^verbatim>\<open>ExecuteAsync\<close> run the same read loop and raise the
  same exception when the spawn primitive returns null, in which case the stream is left
  as it was. Otherwise \<^verbatim>\<open>get()\<close> returns normally, and for a stream in good state with
  field width 0 the bytes that \<^verbatim>\<open>ExecuteAsync\<close> has appended to the stream are exactly
  the string that \<^verbatim>\<open>ExecuteSync\<close> returns; a stream that is not in good state is left as
  it was.
\<close>

theorem ExecuteSync_ExecuteAsync_agree:
  assumes "ExecuteAsync cmd ostr w = (f, w1)" and "strings w cmd = Some c"
    and "ostreams w ostr = Some os"
  shows "case ExecuteSync popen c of
           Inl e \<Rightarrow> outcome ostr (future_get popen f w1) = Some (Inl e, Some os)
         | Inr result \<Rightarrow>
             (\<exists>os'. outcome ostr (future_get popen f w1) = Some (Inr (), Some os') \<and>
                (good os \<and> width os = 0 \<longrightarrow> os' = os\<lparr>written := written os @ result\<rparr>) \<and>
                (\<not> good os \<longrightarrow> os' = os))"
proof (cases "popen c")
  case None
  with assms show ?thesis
    by (simp add: ExecuteSync_def ExecuteAsync_get_fail ExecuteAsync_world(6) outcome_def)
next
  case (Some pipe)
  from ExecuteAsync_get_ok [where popen = popen, OF assms(1,2) Some assms(3)]
  have "outcome ostr (future_get popen f w1) = Some (Inr (), Some (forward pipe os))"
    by (simp add: outcome_def)
  with Some show ?thesis
    by (simp add: ExecuteSync_def sync_loop_chunks forward_plain forward_failed)
qed

theorem ExecuteSync_ExecuteAsync_agree_witness:
  "strings demo_world 0 = Some ''echo hello'' \<and>
   ostreams demo_world 10 = Some ostringstream \<and>
   good ostringstream \<and> width ostringstream = 0 \<and>
   ExecuteSync demo_os ''echo hello'' = Inr (''hello'' @ [newline]) \<and>
   outcome 10 (future_get demo_os (fst (ExecuteAsync 0 10 demo_world))
     (snd (ExecuteAsync 0 10 demo_world))) =
     Some (Inr (), Some (ostringstream\<lparr>written := ''hello'' @ [newline]\<rparr>))"
proof -
  have h1: "ExecuteAsync 0 10 demo_world =
     (fst (ExecuteAsync 0 10 demo_world), snd (ExecuteAsync 0 10 demo_world))"
    by simp
  have h2: "strings demo_world 0 = Some ''echo hello''"
    by (simp add: demo_world_def)
  have h3: "ostreams demo_world 10 = Some ostringstream"
    by (simp add: demo_world_def)
  have h4: "ExecuteSync demo_os ''echo hello'' = Inr (''hello'' @ [newline])"
    by code_simp
  have g: "good ostringstream" and z: "width ostringstream = 0"
    and e: "written ostringstream = []"
    by (simp_all add: ostringstream_def)
  from ExecuteSync_ExecuteAsync_agree [where popen = demo_os, OF h1 h2 h3, unfolded h4] g z
  have A: "outcome 10 (future_get demo_os (fst (ExecuteAsync 0 10 demo_world))
     (snd (ExecuteAsync 0 10 demo_world))) =
     Some (Inr (), Some (ostringstream\<lparr>written := ''hello'' @ [newline]\<rparr>))"
    by (auto simp: e)
  show ?thesis
    by (intro conjI h2 h3 g z h4 A)
qed




end
